theory Spec2Isabelle
  imports Main "HOL-Library.Word"
begin

unbundle bit_operations_syntax

section \<open>Statuses, record identifiers and records\<close>

text \<open>
  The heap file layer of \<^verbatim>\<open>heapfile.C\<close> sits on three collaborators whose code is
  in other files of the repository: the slotted page (\<^verbatim>\<open>Page\<close>), the buffer pool
  (\<^verbatim>\<open>bufMgr\<close>) and the file device (\<^verbatim>\<open>db\<close>). Their declarations and the
  enumerations of \<^verbatim>\<open>heapfile.h\<close> and \<^verbatim>\<open>error.h\<close> are modelled from the
  specification; every function of \<^verbatim>\<open>heapfile.C\<close> the claims are about is translated
  from its source.

  C++ \<^verbatim>\<open>int\<close> is 32 bits wide. Where a result depends on the width (the filter offset
  and length, the integer attribute of \<^verbatim>\<open>matchRec\<close>) the model uses \<open>32 word\<close>, read
  as two's complement by \<open>sint\<close>, with the wrap-around of the usual compilers. Page
  numbers, slot numbers and the header counters are \<open>int\<close>: no claim takes them near
  the limits of the machine type.

  An operation whose behaviour C++ leaves undefined (a null or mistyped page pointer is
  dereferenced, a buffer is read beyond its end) returns \<open>None\<close>; so does a call that
  does not return.
\<close>

type_synonym byte = "8 word"
type_synonym int32 = "32 word"

text \<open>Modelled from the spec: the status codes of section 7 (\<^verbatim>\<open>error.h\<close> is not among
  the sources), with three codes for the failures of the collaborators.\<close>

datatype Status =
  OK | FILEEXISTS | BADPAGENO | BADSCANPARM | NORECORDS | ENDOFPAGE | FILEEOF
  | NOSPACE | INVALIDSLOT | UNIXERR | BUFFEREXCEEDED | PAGENOTPINNED

datatype Datatype = STRING | INTEGER | FLOAT

datatype Operator = LT | LTE | EQ | GTE | GT | NE

record RID =
  pageNo :: int
  slotNo :: int

text \<open>Modelled from the spec: \<^verbatim>\<open>NULLRID\<close> is the distinguished "no record" identifier;
  its declaration is not among the sources, its page and slot number are taken as -1.\<close>

definition NULLRID :: RID where
  "NULLRID = \<lparr>pageNo = - 1, slotNo = - 1\<rparr>"

text \<open>\<^verbatim>\<open>struct Record { void* data; int length; }\<close>: the buffer \<^verbatim>\<open>data\<close> points to, and
  the length the record declares.\<close>

record Record =
  data :: "byte list"
  length_r :: int

definition rec_wf :: "Record \<Rightarrow> bool" where
  "rec_wf r = (length_r r = int (length (data r)))"

section \<open>Reading raw bytes\<close>

text \<open>\<^verbatim>\<open>memcpy(dst, buf + off, n)\<close> reads \<open>n\<close> bytes of \<open>buf\<close> from \<open>off\<close>; a read
  outside the buffer is undefined.\<close>

definition read_bytes :: "byte list \<Rightarrow> int \<Rightarrow> int \<Rightarrow> byte list option" where
  "read_bytes buf off n =
     (if 0 \<le> off \<and> 0 \<le> n \<and> off + n \<le> int (length buf)
      then Some (take (nat n) (drop (nat off) buf)) else None)"

text \<open>The four bytes of an \<^verbatim>\<open>int\<close> or a \<^verbatim>\<open>float\<close> in memory, least significant
  byte first.\<close>

definition le32 :: "byte list \<Rightarrow> int32" where
  "le32 bs = foldr (\<lambda>b acc. ucast b + 256 * acc) bs 0"

text \<open>\<^verbatim>\<open>strncmp(s1, s2, n)\<close>: at most \<open>n\<close> characters are compared as unsigned bytes,
  up to the first difference or the first NUL; the result is the difference of the bytes
  that decide. Running off the end of a buffer is undefined.\<close>

fun strncmp :: "byte list \<Rightarrow> byte list \<Rightarrow> nat \<Rightarrow> int option" where
  "strncmp s1 s2 0 = Some 0"
| "strncmp (a # s1) (b # s2) (Suc n) =
     (if a \<noteq> b then Some (uint a - uint b)
      else if a = 0 then Some 0
      else strncmp s1 s2 n)"
| "strncmp s1 s2 (Suc n) = None"

section \<open>The value of \<^verbatim>\<open>diff\<close>\<close>

text \<open>
  \<^verbatim>\<open>matchRec\<close> stores the comparison in \<^verbatim>\<open>float diff\<close> and only ever compares it
  with \<^verbatim>\<open>0.0\<close>. The model keeps what those comparisons read: whether \<open>diff\<close> is
  negative, zero, positive or not a number.
\<close>

datatype diffval = DNeg | DZero | DPos | DNaN

text \<open>Conversion of an \<^verbatim>\<open>int\<close> to \<^verbatim>\<open>float\<close> rounds, and keeps sign and zero.\<close>

definition diff_of_int :: "int \<Rightarrow> diffval" where
  "diff_of_int i = (if i < 0 then DNeg else if i = 0 then DZero else DPos)"

text \<open>An IEEE 754 single: not a number, an infinity with its sign (\<open>True\<close> is negative),
  or the finite value \<open>k * 2^(-149)\<close>.\<close>

datatype single = SNaN | SInf bool | SFin int

definition single_of_bits :: "int32 \<Rightarrow> single" where
  "single_of_bits w =
     (let s = bit w 31;
          e = unat (take_bit 8 (drop_bit 23 w));
          m = uint (take_bit 23 w)
      in if e = 255 then (if m = 0 then SInf s else SNaN)
         else let k = (if e = 0 then m else (2 ^ 23 + m) * 2 ^ (e - 1))
              in SFin (if s then - k else k))"

text \<open>\<^verbatim>\<open>fattr - ffltr\<close> in single precision, rounded to nearest: the difference of two
  finite values is zero only when they are equal and has the sign of the exact difference
  otherwise (also when it overflows to an infinity).\<close>

fun single_sub :: "single \<Rightarrow> single \<Rightarrow> diffval" where
  "single_sub SNaN y = DNaN"
| "single_sub x SNaN = DNaN"
| "single_sub (SInf s) (SInf t) = (if s = t then DNaN else if s then DNeg else DPos)"
| "single_sub (SInf s) (SFin b) = (if s then DNeg else DPos)"
| "single_sub (SFin a) (SInf t) = (if t then DPos else DNeg)"
| "single_sub (SFin a) (SFin b) = diff_of_int (a - b)"

text \<open>The second \<^verbatim>\<open>switch\<close> of \<^verbatim>\<open>matchRec\<close>: every comparison with a NaN is false,
  but \<^verbatim>\<open>!=\<close>.\<close>

fun op_holds :: "Operator \<Rightarrow> diffval \<Rightarrow> bool" where
  "op_holds LT d = (d = DNeg)"
| "op_holds LTE d = (d = DNeg \<or> d = DZero)"
| "op_holds EQ d = (d = DZero)"
| "op_holds GTE d = (d = DZero \<or> d = DPos)"
| "op_holds GT d = (d = DPos)"
| "op_holds NE d = (d \<noteq> DZero)"

section \<open>The slotted page\<close>

text \<open>
  Modelled from the spec: the slotted page of section 6 (\<^verbatim>\<open>page.C\<close> is not among
  the sources). A data page has its own number, the link to the next data page (-1 on
  the last one) and an array of slots; a slot holds a record or is free. A page has
  \<open>PAGESPACE\<close> bytes for its records. \<^verbatim>\<open>insertRecord\<close> takes a new slot behind the
  others; \<^verbatim>\<open>firstRecord\<close> and \<^verbatim>\<open>nextRecord\<close> walk the occupied slots in the
  order of their numbers, \<^verbatim>\<open>nextRecord\<close> from the slot behind the one it is given.
\<close>

record Page =
  pageNumber :: int
  nextPage :: int
  slots :: "Record option list"

definition PAGESPACE :: int where
  "PAGESPACE = 1000"

definition init :: "int \<Rightarrow> Page" where
  "init pno = \<lparr>pageNumber = pno, nextPage = - 1, slots = []\<rparr>"

definition used_space :: "Page \<Rightarrow> int" where
  "used_space pg = sum_list (map (\<lambda>s. case s of None \<Rightarrow> 0 | Some r \<Rightarrow> length_r r) (slots pg))"

definition live :: "Page \<Rightarrow> int \<Rightarrow> bool" where
  "live pg i = (0 \<le> i \<and> i < int (length (slots pg)) \<and> slots pg ! nat i \<noteq> None)"

definition page_getRecord :: "Page \<Rightarrow> RID \<Rightarrow> Status \<times> Record option" where
  "page_getRecord pg rid =
     (if live pg (slotNo rid) then (OK, slots pg ! nat (slotNo rid)) else (INVALIDSLOT, None))"

definition page_insertRecord :: "Page \<Rightarrow> Record \<Rightarrow> Status \<times> RID \<times> Page" where
  "page_insertRecord pg rec =
     (if used_space pg + length_r rec \<le> PAGESPACE
      then (OK, \<lparr>pageNo = pageNumber pg, slotNo = int (length (slots pg))\<rparr>,
            pg\<lparr>slots := slots pg @ [Some rec]\<rparr>)
      else (NOSPACE, NULLRID, pg))"

definition page_deleteRecord :: "Page \<Rightarrow> RID \<Rightarrow> Status \<times> Page" where
  "page_deleteRecord pg rid =
     (if live pg (slotNo rid)
      then (OK, pg\<lparr>slots := (slots pg)[nat (slotNo rid) := None]\<rparr>)
      else (INVALIDSLOT, pg))"

text \<open>The first occupied slot among the slots \<open>i, i + 1, ...\<close> of a list that starts
  at slot \<open>i\<close>.\<close>

fun first_live :: "int \<Rightarrow> Record option list \<Rightarrow> int option" where
  "first_live i [] = None"
| "first_live i (s # ss) = (if s \<noteq> None then Some i else first_live (i + 1) ss)"

definition live_from :: "Page \<Rightarrow> int \<Rightarrow> int option" where
  "live_from pg i = first_live (max i 0) (drop (nat i) (slots pg))"

definition firstRecord :: "Page \<Rightarrow> Status \<times> RID" where
  "firstRecord pg =
     (case live_from pg 0 of
        None \<Rightarrow> (NORECORDS, NULLRID)
      | Some i \<Rightarrow> (OK, \<lparr>pageNo = pageNumber pg, slotNo = i\<rparr>))"

definition nextRecord :: "Page \<Rightarrow> RID \<Rightarrow> Status \<times> RID" where
  "nextRecord pg curRid =
     (case live_from pg (slotNo curRid + 1) of
        None \<Rightarrow> (ENDOFPAGE, NULLRID)
      | Some i \<Rightarrow> (OK, \<lparr>pageNo = pageNumber pg, slotNo = i\<rparr>))"

section \<open>The file and the buffer pool\<close>

record FileHdrPage =
  fileName :: string
  firstPage :: int
  lastPage :: int
  pageCnt :: int
  recCnt :: int

text \<open>What a page of the file holds: nothing yet (it was allocated and not written), the
  header, or a data page.\<close>

datatype PageImage = Blank | Hdr FileHdrPage | Data Page

text \<open>
  Modelled from the spec: the file device and the buffer pool of section 6
  (\<^verbatim>\<open>db.C\<close> and \<^verbatim>\<open>buf.C\<close> are not among the sources). The world holds the one file
  the calls name: whether it exists, how often it is open, how many pages it has
  allocated (they are numbered from 1, the first is what \<^verbatim>\<open>getFirstPage\<close> returns),
  the image of each page as the layer sees it through the pool, the pin count of each
  page and the dirty bit of its frame, which \<^verbatim>\<open>unPinPage\<close> sets when it is passed
  \<^verbatim>\<open>true\<close>. Only a frame whose dirty bit is set is written back.

  The failures of the pool that come from outside the layer (section 7: pin, read and
  alloc failures) are taken from the script \<open>faults\<close>: every call of the pool consumes
  one entry and fails with it, unless the entry is \<open>OK\<close>; when the script is empty no
  call fails this way.
\<close>

record World =
  fileExists :: bool
  openCnt :: nat
  nAlloc :: int
  pages :: "int \<rightharpoonup> PageImage"
  pinCnt :: "int \<Rightarrow> nat"
  dirty :: "int \<Rightarrow> bool"
  faults :: "Status list"

definition createFile :: "World \<Rightarrow> Status \<times> World" where
  "createFile w =
     (if fileExists w then (FILEEXISTS, w)
      else (OK, w\<lparr>fileExists := True, openCnt := 0, nAlloc := 0, pages := Map.empty\<rparr>))"

definition openFile :: "World \<Rightarrow> Status \<times> World" where
  "openFile w =
     (if fileExists w then (OK, w\<lparr>openCnt := openCnt w + 1\<rparr>) else (UNIXERR, w))"

definition closeFile :: "World \<Rightarrow> Status \<times> World" where
  "closeFile w =
     (if 0 < openCnt w then (OK, w\<lparr>openCnt := openCnt w - 1\<rparr>) else (UNIXERR, w))"

definition getFirstPage :: "World \<Rightarrow> Status \<times> int" where
  "getFirstPage w = (OK, if 1 \<le> nAlloc w then 1 else - 1)"

definition next_fault :: "World \<Rightarrow> Status \<times> World" where
  "next_fault w = (case faults w of [] \<Rightarrow> (OK, w) | s # fs \<Rightarrow> (s, w\<lparr>faults := fs\<rparr>))"

definition allocPage :: "World \<Rightarrow> Status \<times> int \<times> World" where
  "allocPage w =
     (case next_fault w of (s, w1) \<Rightarrow>
        if s \<noteq> OK then (s, 0, w1)
        else let n = nAlloc w1 + 1
             in (OK, n, w1\<lparr>nAlloc := n, pages := (pages w1)(n \<mapsto> Blank),
                            pinCnt := (pinCnt w1)(n := 1)\<rparr>))"

definition readPage :: "World \<Rightarrow> int \<Rightarrow> Status \<times> World" where
  "readPage w p =
     (case next_fault w of (s, w1) \<Rightarrow>
        if s \<noteq> OK then (s, w1)
        else if pages w1 p = None then (BADPAGENO, w1)
        else (OK, w1\<lparr>pinCnt := (pinCnt w1)(p := pinCnt w1 p + 1)\<rparr>))"

definition unPinPage :: "World \<Rightarrow> int \<Rightarrow> bool \<Rightarrow> Status \<times> World" where
  "unPinPage w p d =
     (case next_fault w of (s, w1) \<Rightarrow>
        if s \<noteq> OK then (s, w1)
        else if pinCnt w1 p = 0 then (PAGENOTPINNED, w1)
        else (OK, w1\<lparr>pinCnt := (pinCnt w1)(p := pinCnt w1 p - 1),
                      dirty := (dirty w1)(p := dirty w1 p \<or> d)\<rparr>))"

text \<open>A \<^verbatim>\<open>Page*\<close> or \<^verbatim>\<open>FileHdrPage*\<close> is the number of the page whose frame it points
  to, \<open>None\<close> for \<^verbatim>\<open>NULL\<close>. Reading through it gives the image of that page; the result
  is undefined for \<^verbatim>\<open>NULL\<close> and for an image of the other kind. A page that was only
  allocated reads as a header of zeros.\<close>

definition data_at :: "World \<Rightarrow> int \<Rightarrow> Page option" where
  "data_at w p = (case pages w p of Some (Data pg) \<Rightarrow> Some pg | _ \<Rightarrow> None)"

definition hdr_at :: "World \<Rightarrow> int \<Rightarrow> FileHdrPage option" where
  "hdr_at w p =
     (case pages w p of
        Some (Hdr h) \<Rightarrow> Some h
      | Some Blank \<Rightarrow>
          Some \<lparr>fileName = [], firstPage = 0, lastPage = 0, pageCnt = 0, recCnt = 0\<rparr>
      | _ \<Rightarrow> None)"

definition put_data :: "World \<Rightarrow> int \<Rightarrow> Page \<Rightarrow> World" where
  "put_data w p pg = w\<lparr>pages := (pages w)(p \<mapsto> Data pg)\<rparr>"

definition put_hdr :: "World \<Rightarrow> int \<Rightarrow> FileHdrPage \<Rightarrow> World" where
  "put_hdr w p h = w\<lparr>pages := (pages w)(p \<mapsto> Hdr h)\<rparr>"

definition getNextPage :: "Page \<Rightarrow> Status \<times> int" where
  "getNextPage pg = (OK, nextPage pg)"

definition setNextPage :: "Page \<Rightarrow> int \<Rightarrow> Status \<times> Page" where
  "setNextPage pg n = (OK, pg\<lparr>nextPage := n\<rparr>)"

section \<open>Creating a heap file\<close>

definition createHeapFile :: "string \<Rightarrow> World \<Rightarrow> (Status \<times> World) option" where
  "createHeapFile name w =
     (case openFile w of (status, w0) \<Rightarrow>
      if status \<noteq> OK then
        (case createFile w0 of (status, w1) \<Rightarrow>
         if status \<noteq> OK then Some (status, w1) else
         case openFile w1 of (status, w2) \<Rightarrow>
         if status \<noteq> OK then Some (status, w2) else
         case allocPage w2 of (status, hdrPageNo, w3) \<Rightarrow>
         if status \<noteq> OK then Some (status, w3) else
         (case hdr_at w3 hdrPageNo of None \<Rightarrow> None | Some hdr0 \<Rightarrow>
         let w4 = put_hdr w3 hdrPageNo (hdr0\<lparr>fileName := name\<rparr>) in
         case allocPage w4 of (status, newPageNo, w5) \<Rightarrow>
         if status \<noteq> OK then Some (status, w5) else
         let w6 = put_data w5 newPageNo (init newPageNo) in
         (case hdr_at w6 hdrPageNo of None \<Rightarrow> None | Some hdr1 \<Rightarrow>
         let w7 = put_hdr w6 hdrPageNo
                    (hdr1\<lparr>firstPage := newPageNo, lastPage := newPageNo,
                           pageCnt := 1, recCnt := 0\<rparr>) in
         case unPinPage w7 hdrPageNo True of (status, w8) \<Rightarrow>
         if status \<noteq> OK then Some (status, w8) else
         case unPinPage w8 newPageNo True of (status, w9) \<Rightarrow>
         if status \<noteq> OK then Some (status, w9) else
         case closeFile w9 of (status, w10) \<Rightarrow>
         if status \<noteq> OK then Some (status, w10) else Some (OK, w10))))
      else Some (FILEEXISTS, w0))"

section \<open>The heap file handle\<close>

text \<open>The members of \<^verbatim>\<open>class HeapFile\<close>. The world holds one file, so \<^verbatim>\<open>filePtr\<close>
  has nothing to select and is left out.\<close>

record HeapFile =
  headerPage :: "int option"
  headerPageNo :: int
  hdrDirtyFlag :: bool
  curPage :: "int option"
  curPageNo :: int
  curDirtyFlag :: bool
  curRec :: RID

text \<open>The page \<^verbatim>\<open>curPage\<close> points to, and the header \<^verbatim>\<open>headerPage\<close> points to, with
  their page numbers.\<close>

definition cur_data :: "'a HeapFile_scheme \<Rightarrow> World \<Rightarrow> (int \<times> Page) option" where
  "cur_data this w =
     (case curPage this of None \<Rightarrow> None
      | Some p \<Rightarrow> (case data_at w p of None \<Rightarrow> None | Some pg \<Rightarrow> Some (p, pg)))"

definition header :: "'a HeapFile_scheme \<Rightarrow> World \<Rightarrow> (int \<times> FileHdrPage) option" where
  "header this w =
     (case headerPage this of None \<Rightarrow> None
      | Some p \<Rightarrow> (case hdr_at w p of None \<Rightarrow> None | Some h \<Rightarrow> Some (p, h)))"

text \<open>The constructor works on the storage of the object, \<open>this\<close>: a member it does not
  assign keeps what the storage held.\<close>

definition HeapFile_ctor ::
  "string \<Rightarrow> 'a HeapFile_scheme \<Rightarrow> World \<Rightarrow> (Status \<times> 'a HeapFile_scheme \<times> World) option"
where
  "HeapFile_ctor name this w =
     (case openFile w of (status, w1) \<Rightarrow>
      if status = OK then
        (case getFirstPage w1 of (status, hno) \<Rightarrow>
         let this1 = this\<lparr>headerPageNo := hno\<rparr> in
         if status \<noteq> OK then Some (status, this1, w1) else
         case readPage w1 (headerPageNo this1) of (status, w2) \<Rightarrow>
         if status \<noteq> OK then Some (status, this1, w2) else
         let this2 = this1\<lparr>headerPage := Some (headerPageNo this1), hdrDirtyFlag := False\<rparr> in
         (case header this2 w2 of None \<Rightarrow> None | Some (hp, hdr) \<Rightarrow>
         if firstPage hdr \<noteq> - 1 then
           (case readPage w2 (firstPage hdr) of (status, w3) \<Rightarrow>
            if status \<noteq> OK then
              (case unPinPage w3 (headerPageNo this2) False of (ignored, w4) \<Rightarrow>
               Some (status, this2, w4))
            else
              Some (OK, this2\<lparr>curPage := Some (firstPage hdr), curPageNo := firstPage hdr,
                               curDirtyFlag := False, curRec := NULLRID\<rparr>, w3))
         else
           Some (OK, this2\<lparr>curPage := None, curPageNo := - 1, curDirtyFlag := False,
                            curRec := NULLRID\<rparr>, w2)))
      else Some (status, this, w1))"

text \<open>The destructor prints \<^verbatim>\<open>headerPage->fileName\<close> first, then releases what the
  handle holds; the statuses are only logged.\<close>

definition HeapFile_dtor :: "'a HeapFile_scheme \<Rightarrow> World \<Rightarrow> World option" where
  "HeapFile_dtor this w =
     (case header this w of None \<Rightarrow> None | Some (hp, hdr) \<Rightarrow>
      case (if curPage this \<noteq> None
            then (case unPinPage w (curPageNo this) (curDirtyFlag this) of (status, w1) \<Rightarrow>
                    (this\<lparr>curPage := None, curPageNo := 0, curDirtyFlag := False\<rparr>, w1))
            else (this, w)) of (this1, w1) \<Rightarrow>
      case unPinPage w1 (headerPageNo this1) (hdrDirtyFlag this1) of (status, w2) \<Rightarrow>
      case closeFile w2 of (status, w3) \<Rightarrow> Some w3)"

section \<open>The filtered scan\<close>

text \<open>\<^verbatim>\<open>class HeapFileScan : public HeapFile\<close>, with the members of the filter and of
  the mark. \<^verbatim>\<open>filter\<close> is a \<^verbatim>\<open>const char*\<close>: the bytes it points to, or \<open>None\<close>
  for \<^verbatim>\<open>NULL\<close>.\<close>

record HeapFileScan = HeapFile +
  offset :: int32
  length_s :: int32
  type_s :: Datatype
  filter_s :: "byte list option"
  op_s :: Operator
  markedPageNo :: int
  markedRec :: RID

definition HeapFileScan_ctor ::
  "string \<Rightarrow> HeapFileScan \<Rightarrow> World \<Rightarrow> (Status \<times> HeapFileScan \<times> World) option"
where
  "HeapFileScan_ctor name this w =
     (case HeapFile_ctor name this w of None \<Rightarrow> None
      | Some (status, this1, w1) \<Rightarrow> Some (status, this1\<lparr>filter_s := None\<rparr>, w1))"

text \<open>The tests on \<^verbatim>\<open>type_\<close> and \<^verbatim>\<open>op_\<close> hold for every value of the enumerations;
  \<^verbatim>\<open>sizeof(int)\<close> and \<^verbatim>\<open>sizeof(float)\<close> are 4.\<close>

definition startScan ::
  "int32 \<Rightarrow> int32 \<Rightarrow> Datatype \<Rightarrow> byte list option \<Rightarrow> Operator \<Rightarrow> HeapFileScan
     \<Rightarrow> Status \<times> HeapFileScan"
where
  "startScan offset' length' type' filter' op' this =
     (if filter' = None then (OK, this\<lparr>filter_s := None\<rparr>)
      else if (sint offset' < 0 \<or> sint length' < 1) \<or>
              (type' \<noteq> STRING \<and> type' \<noteq> INTEGER \<and> type' \<noteq> FLOAT) \<or>
              (type' = INTEGER \<and> sint length' \<noteq> 4 \<or> type' = FLOAT \<and> sint length' \<noteq> 4) \<or>
              (op' \<noteq> LT \<and> op' \<noteq> LTE \<and> op' \<noteq> EQ \<and> op' \<noteq> GTE \<and> op' \<noteq> GT \<and> op' \<noteq> NE)
      then (BADSCANPARM, this)
      else (OK, this\<lparr>offset := offset', length_s := length', type_s := type',
                      filter_s := filter', op_s := op'\<rparr>))"

definition endScan :: "HeapFileScan \<Rightarrow> World \<Rightarrow> Status \<times> HeapFileScan \<times> World" where
  "endScan this w =
     (if curPage this \<noteq> None
      then (case unPinPage w (curPageNo this) (curDirtyFlag this) of (status, w1) \<Rightarrow>
              (status, this\<lparr>curPage := None, curPageNo := 0, curDirtyFlag := False\<rparr>, w1))
      else (OK, this, w))"

definition HeapFileScan_dtor :: "HeapFileScan \<Rightarrow> World \<Rightarrow> World option" where
  "HeapFileScan_dtor this w =
     (case endScan this w of (status, this1, w1) \<Rightarrow> HeapFile_dtor this1 w1)"

definition markScan :: "HeapFileScan \<Rightarrow> Status \<times> HeapFileScan" where
  "markScan this = (OK, this\<lparr>markedPageNo := curPageNo this, markedRec := curRec this\<rparr>)"

definition resetScan :: "HeapFileScan \<Rightarrow> World \<Rightarrow> Status \<times> HeapFileScan \<times> World" where
  "resetScan this w =
     (if markedPageNo this \<noteq> curPageNo this then
        (case (if curPage this \<noteq> None
               then unPinPage w (curPageNo this) (curDirtyFlag this) else (OK, w)) of
           (status, w1) \<Rightarrow>
             if status \<noteq> OK then (status, this, w1) else
             let this1 = this\<lparr>curPageNo := markedPageNo this, curRec := markedRec this\<rparr> in
             case readPage w1 (curPageNo this1) of (status, w2) \<Rightarrow>
             if status \<noteq> OK then (status, this1, w2)
             else (OK, this1\<lparr>curPage := Some (curPageNo this1), curDirtyFlag := False\<rparr>, w2))
      else (OK, this\<lparr>curRec := markedRec this\<rparr>, w))"

subsection \<open>\<^verbatim>\<open>matchRec\<close>\<close>

text \<open>The first \<^verbatim>\<open>switch\<close>: the value of \<^verbatim>\<open>diff\<close> for each type. The two
  \<^verbatim>\<open>memcpy\<close> fill a local of four bytes with \<^verbatim>\<open>length\<close> bytes, which is defined for
  a length of four only. \<^verbatim>\<open>iattr - ifltr\<close> is a subtraction of \<^verbatim>\<open>int\<close>.\<close>

definition attr_diff :: "HeapFileScan \<Rightarrow> byte list \<Rightarrow> Record \<Rightarrow> diffval option" where
  "attr_diff this flt rec =
     (case type_s this of
        INTEGER \<Rightarrow>
          (if sint (length_s this) \<noteq> 4 then None else
           case read_bytes (data rec) (sint (offset this)) (sint (length_s this)) of
             None \<Rightarrow> None
           | Some a \<Rightarrow>
               (case read_bytes flt 0 (sint (length_s this)) of
                  None \<Rightarrow> None
                | Some f \<Rightarrow> Some (diff_of_int (sint (le32 a - le32 f)))))
      | FLOAT \<Rightarrow>
          (if sint (length_s this) \<noteq> 4 then None else
           case read_bytes (data rec) (sint (offset this)) (sint (length_s this)) of
             None \<Rightarrow> None
           | Some a \<Rightarrow>
               (case read_bytes flt 0 (sint (length_s this)) of
                  None \<Rightarrow> None
                | Some f \<Rightarrow>
                    Some (single_sub (single_of_bits (le32 a)) (single_of_bits (le32 f)))))
      | STRING \<Rightarrow>
          (if sint (offset this) < 0 \<or> sint (length_s this) < 0 then None else
           case strncmp (drop (nat (sint (offset this))) (data rec)) flt
                  (nat (sint (length_s this))) of
             None \<Rightarrow> None
           | Some d \<Rightarrow> Some (diff_of_int d)))"

definition matchRec :: "HeapFileScan \<Rightarrow> Record \<Rightarrow> bool option" where
  "matchRec this rec =
     (case filter_s this of
        None \<Rightarrow> Some True
      | Some flt \<Rightarrow>
          if sint (offset this + length_s this - 1) \<ge> length_r rec then Some False
          else (case attr_diff this flt rec of
                  None \<Rightarrow> None
                | Some diff \<Rightarrow> Some (op_holds (op_s this) diff)))"

subsection \<open>\<^verbatim>\<open>scanNext\<close>\<close>

text \<open>One activation of \<^verbatim>\<open>scanNext\<close> ends in a \<^verbatim>\<open>return\<close> with a status, in the tail
  call \<^verbatim>\<open>return scanNext(outRid)\<close>, or in undefined behaviour.\<close>

datatype scan_ctl =
  Undefined
  | Return Status RID HeapFileScan World
  | Again HeapFileScan World

text \<open>The block \<^verbatim>\<open>if (curPage == NULL)\<close>. \<open>Inl\<close> ends the activation, \<open>Inr\<close> goes on
  behind the block.\<close>

definition scan_begin ::
  "RID \<Rightarrow> HeapFileScan \<Rightarrow> World \<Rightarrow> scan_ctl + HeapFileScan \<times> World"
where
  "scan_begin outRid this w =
     (if curPage this = None then
        (case header this w of None \<Rightarrow> Inl Undefined | Some (hp, hdr) \<Rightarrow>
         if firstPage hdr = - 1 then Inl (Return NORECORDS outRid this w) else
         case readPage w (firstPage hdr) of (status, w1) \<Rightarrow>
         if status \<noteq> OK then Inl (Return status outRid this w1) else
         let this1 = this\<lparr>curPage := Some (firstPage hdr), curPageNo := firstPage hdr,
                          curDirtyFlag := False\<rparr> in
         (case cur_data this1 w1 of None \<Rightarrow> Inl Undefined | Some (p, pg) \<Rightarrow>
          case firstRecord pg of (status, tmpRid) \<Rightarrow>
          if status \<noteq> OK then
            (if status = NORECORDS then Inl (Again this1 w1)
             else Inl (Return status outRid this1 w1))
          else Inr (this1\<lparr>curRec := tmpRid\<rparr>, w1)))
      else Inr (this, w))"

text \<open>From \<^verbatim>\<open>curPage->nextRecord(curRec, nextRid)\<close> to the end of the \<^verbatim>\<open>if\<close> chain on
  its status.\<close>

definition scan_advance ::
  "RID \<Rightarrow> HeapFileScan \<Rightarrow> World \<Rightarrow> scan_ctl + HeapFileScan \<times> World"
where
  "scan_advance outRid this w =
     (case cur_data this w of None \<Rightarrow> Inl Undefined | Some (p, pg) \<Rightarrow>
      case nextRecord pg (curRec this) of (status, nextRid) \<Rightarrow>
      if status = OK then Inr (this\<lparr>curRec := nextRid\<rparr>, w)
      else if status = ENDOFPAGE then
        (case getNextPage pg of (status, nextPageNo) \<Rightarrow>
         if status \<noteq> OK then Inl (Return status outRid this w) else
         if nextPageNo = - 1 then Inl (Return FILEEOF outRid this w) else
         case unPinPage w (curPageNo this) (curDirtyFlag this) of (status, w1) \<Rightarrow>
         if status \<noteq> OK then Inl (Return status outRid this w1) else
         case readPage w1 nextPageNo of (status, w2) \<Rightarrow>
         if status \<noteq> OK then Inl (Return status outRid this w2) else
         let this1 = this\<lparr>curPage := Some nextPageNo, curPageNo := nextPageNo,
                          curDirtyFlag := False\<rparr> in
         (case cur_data this1 w2 of None \<Rightarrow> Inl Undefined | Some (p1, pg1) \<Rightarrow>
          case firstRecord pg1 of (status, tmpRid) \<Rightarrow>
          if status \<noteq> OK then
            (if status = NORECORDS then Inl (Again this1 w2)
             else Inl (Return status outRid this1 w2))
          else Inr (this1\<lparr>curRec := tmpRid\<rparr>, w2)))
      else Inl (Return status outRid this w))"

text \<open>From \<^verbatim>\<open>if (filter == NULL)\<close> to the end.\<close>

definition scan_filter :: "RID \<Rightarrow> HeapFileScan \<Rightarrow> World \<Rightarrow> scan_ctl" where
  "scan_filter outRid this w =
     (if filter_s this = None then Return OK (curRec this) this w else
      case cur_data this w of None \<Rightarrow> Undefined | Some (p, pg) \<Rightarrow>
      (case page_getRecord pg (curRec this) of
         (status, None) \<Rightarrow> if status \<noteq> OK then Return status outRid this w else Undefined
       | (status, Some rec) \<Rightarrow>
           if status \<noteq> OK then Return status outRid this w else
           (case matchRec this rec of
              None \<Rightarrow> Undefined
            | Some m \<Rightarrow> if m then Return OK (curRec this) this w else Again this w)))"

definition scanNext_step :: "RID \<Rightarrow> HeapFileScan \<Rightarrow> World \<Rightarrow> scan_ctl" where
  "scanNext_step outRid this w =
     (case scan_begin outRid this w of
        Inl c \<Rightarrow> c
      | Inr (this1, w1) \<Rightarrow>
          (case scan_advance outRid this1 w1 of
             Inl c \<Rightarrow> c
           | Inr (this2, w2) \<Rightarrow> scan_filter outRid this2 w2))"

partial_function (option) scanNext ::
  "RID \<Rightarrow> HeapFileScan \<Rightarrow> World \<Rightarrow> (Status \<times> RID \<times> HeapFileScan \<times> World) option"
where
  "scanNext outRid this w =
     (case scanNext_step outRid this w of
        Undefined \<Rightarrow> None
      | Return status rid this1 w1 \<Rightarrow> Some (status, rid, this1, w1)
      | Again this1 w1 \<Rightarrow> scanNext outRid this1 w1)"

subsection \<open>\<^verbatim>\<open>deleteRecord\<close>\<close>

definition deleteRecord :: "HeapFileScan \<Rightarrow> World \<Rightarrow> (Status \<times> HeapFileScan \<times> World) option"
where
  "deleteRecord this w =
     (case cur_data this w of None \<Rightarrow> None | Some (p, pg) \<Rightarrow>
      case page_deleteRecord pg (curRec this) of (status, pg1) \<Rightarrow>
      let w1 = put_data w p pg1;
          this1 = this\<lparr>curDirtyFlag := True\<rparr> in
      (case header this1 w1 of None \<Rightarrow> None | Some (hp, hdr) \<Rightarrow>
       let w2 = put_hdr w1 hp (hdr\<lparr>recCnt := recCnt hdr - 1\<rparr>) in
       Some (status, this1\<lparr>hdrDirtyFlag := True\<rparr>, w2)))"

section \<open>The insert scan\<close>

text \<open>\<^verbatim>\<open>class InsertFileScan : public HeapFile\<close> adds no member; its constructor is the
  one of \<^verbatim>\<open>HeapFile\<close>.\<close>

definition InsertFileScan_ctor ::
  "string \<Rightarrow> HeapFile \<Rightarrow> World \<Rightarrow> (Status \<times> HeapFile \<times> World) option"
where
  "InsertFileScan_ctor name this w = HeapFile_ctor name this w"

definition InsertFileScan_dtor :: "HeapFile \<Rightarrow> World \<Rightarrow> World option" where
  "InsertFileScan_dtor this w =
     (case (if curPage this \<noteq> None
            then (case unPinPage w (curPageNo this) True of (status, w1) \<Rightarrow>
                    (this\<lparr>curPage := None, curPageNo := 0\<rparr>, w1))
            else (this, w)) of (this1, w1) \<Rightarrow>
      HeapFile_dtor this1 w1)"

text \<open>The block \<^verbatim>\<open>if (curPage == NULL)\<close> of \<^verbatim>\<open>insertRecord\<close>. \<open>Inl\<close> is an early
  return, \<open>Inr\<close> goes on behind the block.\<close>

definition insert_begin ::
  "HeapFile \<Rightarrow> World \<Rightarrow> (Status \<times> HeapFile \<times> World + HeapFile \<times> World) option"
where
  "insert_begin this w =
     (if curPage this = None then
        (case header this w of None \<Rightarrow> None | Some (hp, hdr) \<Rightarrow>
         if lastPage hdr = - 1 then
           (case allocPage w of (status, newPageNo, w1) \<Rightarrow>
            if status \<noteq> OK then Some (Inl (status, this, w1)) else
            let w2 = put_data w1 newPageNo (init newPageNo) in
            (case header this w2 of None \<Rightarrow> None | Some (hp1, hdr1) \<Rightarrow>
             let w3 = put_hdr w2 hp1 (hdr1\<lparr>firstPage := newPageNo, lastPage := newPageNo,
                                            pageCnt := 1\<rparr>) in
             Some (Inr (this\<lparr>curPage := Some newPageNo, curPageNo := newPageNo,
                             curDirtyFlag := True, hdrDirtyFlag := True\<rparr>, w3))))
         else
           (case readPage w (lastPage hdr) of (status, w1) \<Rightarrow>
            if status \<noteq> OK then Some (Inl (status, this, w1)) else
            Some (Inr (this\<lparr>curPage := Some (lastPage hdr), curPageNo := lastPage hdr,
                            curDirtyFlag := False\<rparr>, w1))))
      else Some (Inr (this, w)))"

text \<open>The path behind \<^verbatim>\<open>NOSPACE\<close>: a new page is allocated, linked behind the current
  page and made the current page, and the record is inserted there.\<close>

definition insert_extend ::
  "Record \<Rightarrow> RID \<Rightarrow> HeapFile \<Rightarrow> World \<Rightarrow> (Status \<times> RID \<times> HeapFile \<times> World) option"
where
  "insert_extend rec outRid this w =
     (case allocPage w of (status, newPageNo, w1) \<Rightarrow>
      if status \<noteq> OK then Some (status, outRid, this, w1) else
      let w2 = put_data w1 newPageNo (init newPageNo) in
      (case cur_data this w2 of None \<Rightarrow> None | Some (p, pg) \<Rightarrow>
       case setNextPage pg newPageNo of (status, pg1) \<Rightarrow>
       if status \<noteq> OK then
         (case unPinPage w2 newPageNo False of (ignored, w3) \<Rightarrow>
          Some (status, outRid, this, w3))
       else
       let w3 = put_data w2 p pg1 in
       (case header this w3 of None \<Rightarrow> None | Some (hp, hdr) \<Rightarrow>
        let w4 = put_hdr w3 hp (hdr\<lparr>lastPage := newPageNo, pageCnt := pageCnt hdr + 1\<rparr>);
            this1 = this\<lparr>hdrDirtyFlag := True\<rparr> in
        case unPinPage w4 (curPageNo this1) (curDirtyFlag this1) of (unpinstatus, w5) \<Rightarrow>
        if unpinstatus \<noteq> OK then Some (unpinstatus, outRid, this1, w5) else
        let this2 = this1\<lparr>curPage := Some newPageNo, curPageNo := newPageNo,
                          curDirtyFlag := True\<rparr> in
        (case cur_data this2 w5 of None \<Rightarrow> None | Some (p2, pg2) \<Rightarrow>
         case page_insertRecord pg2 rec of (status, rid, pg3) \<Rightarrow>
         if status \<noteq> OK then Some (status, outRid, this2, w5) else
         let w6 = put_data w5 p2 pg3 in
         (case header this2 w6 of None \<Rightarrow> None | Some (hp2, hdr2) \<Rightarrow>
          let w7 = put_hdr w6 hp2 (hdr2\<lparr>recCnt := recCnt hdr2 + 1\<rparr>) in
          Some (OK, rid, this2\<lparr>hdrDirtyFlag := True\<rparr>, w7))))))"

definition insertRecord ::
  "Record \<Rightarrow> RID \<Rightarrow> HeapFile \<Rightarrow> World \<Rightarrow> (Status \<times> RID \<times> HeapFile \<times> World) option"
where
  "insertRecord rec outRid this w =
     (case insert_begin this w of
        None \<Rightarrow> None
      | Some (Inl (status, this1, w1)) \<Rightarrow> Some (status, outRid, this1, w1)
      | Some (Inr (this1, w1)) \<Rightarrow>
          (case cur_data this1 w1 of None \<Rightarrow> None | Some (p, pg) \<Rightarrow>
           case page_insertRecord pg rec of (status, rid, pg1) \<Rightarrow>
           if status = OK then
             (let w2 = put_data w1 p pg1 in
              case header this1 w2 of None \<Rightarrow> None | Some (hp, hdr) \<Rightarrow>
              let w3 = put_hdr w2 hp (hdr\<lparr>recCnt := recCnt hdr + 1\<rparr>) in
              Some (OK, rid, this1\<lparr>hdrDirtyFlag := True, curDirtyFlag := True\<rparr>, w3))
           else if status \<noteq> NOSPACE then Some (status, outRid, this1, w1)
           else insert_extend rec outRid this1 w1))"

section \<open>The page chain and the header\<close>

text \<open>Following \<^verbatim>\<open>nextPage\<close> from page \<open>p\<close> over at most \<open>n\<close> data pages up to the link
  -1: the pages passed, in their order.\<close>

fun walk :: "World \<Rightarrow> int \<Rightarrow> nat \<Rightarrow> int list option" where
  "walk w p 0 = (if p = - 1 then Some [] else None)"
| "walk w p (Suc n) =
     (if p = - 1 then Some []
      else case data_at w p of
             None \<Rightarrow> None
           | Some pg \<Rightarrow>
               (case walk w (nextPage pg) n of None \<Rightarrow> None | Some ps \<Rightarrow> Some (p # ps)))"

definition live_count :: "World \<Rightarrow> int \<Rightarrow> int" where
  "live_count w p =
     (case data_at w p of
        None \<Rightarrow> 0
      | Some pg \<Rightarrow> int (length (filter (\<lambda>s. s \<noteq> None) (slots pg))))"

text \<open>The header at page \<open>hp\<close> agrees with the chain: the chain from \<^verbatim>\<open>firstPage\<close> has
  \<^verbatim>\<open>pageCnt\<close> pages and ends with the link -1, its last page is \<^verbatim>\<open>lastPage\<close> (-1
  when there is none), and \<^verbatim>\<open>recCnt\<close> is the number of records on these pages.\<close>

definition consistent :: "World \<Rightarrow> int \<Rightarrow> bool" where
  "consistent w hp =
     (case hdr_at w hp of
        None \<Rightarrow> False
      | Some hdr \<Rightarrow>
          (case walk w (firstPage hdr) (nat (pageCnt hdr)) of
             None \<Rightarrow> False
           | Some ps \<Rightarrow>
               int (length ps) = pageCnt hdr \<and>
               lastPage hdr = (if ps = [] then - 1 else last ps) \<and>
               recCnt hdr = sum_list (map (live_count w) ps)))"

section \<open>What a scan enumerates\<close>

text \<open>The records of a slot array whose first slot has the number \<open>i\<close>, on the page
  with the number \<open>n\<close>: each occupied slot with its record identifier, in the order of
  the slots.\<close>

fun entries :: "int \<Rightarrow> int \<Rightarrow> Record option list \<Rightarrow> (RID \<times> Record) list" where
  "entries n i [] = []"
| "entries n i (None # ss) = entries n (i + 1) ss"
| "entries n i (Some r # ss) = (\<lparr>pageNo = n, slotNo = i\<rparr>, r) # entries n (i + 1) ss"

definition page_entries :: "Page \<Rightarrow> (RID \<times> Record) list" where
  "page_entries pg = entries (pageNumber pg) 0 (slots pg)"

text \<open>The records of a page from the slot \<open>k\<close> on.\<close>

definition entries_from :: "Page \<Rightarrow> int \<Rightarrow> (RID \<times> Record) list" where
  "entries_from pg k = entries (pageNumber pg) (max k 0) (drop (nat k) (slots pg))"

text \<open>The records of the data pages \<open>ps\<close>, page after page: the live records of a file
  in the order of its chain, when \<open>ps\<close> is the chain.\<close>

definition file_entries :: "World \<Rightarrow> int list \<Rightarrow> (RID \<times> Record) list" where
  "file_entries w ps =
     concat (map (\<lambda>p. case data_at w p of None \<Rightarrow> [] | Some pg \<Rightarrow> page_entries pg) ps)"

text \<open>\<^verbatim>\<open>scanNext\<close> is called until it returns a status other than \<open>OK\<close>: the record
  identifiers returned, and the last status. The result is \<open>None\<close> when a call does not
  return or the scan has not ended within \<open>n\<close> calls. Each call is given the identifier
  the call before it returned, as a caller does that passes the same variable.\<close>

fun scan_to_end :: "nat \<Rightarrow> RID \<Rightarrow> HeapFileScan \<Rightarrow> World \<Rightarrow> (RID list \<times> Status) option" where
  "scan_to_end 0 outRid this w = None"
| "scan_to_end (Suc n) outRid this w =
     (case scanNext outRid this w of
        None \<Rightarrow> None
      | Some (status, rid, this1, w1) \<Rightarrow>
          if status = OK
          then (case scan_to_end n rid this1 w1 of
                  None \<Rightarrow> None
                | Some (rids, fin) \<Rightarrow> Some (rid # rids, fin))
          else Some ([], status))"

section \<open>Positions of a scan\<close>

text \<open>A scan has a position when its current page is pinned: \<^verbatim>\<open>curPage\<close> points to
  the page \<^verbatim>\<open>curPageNo\<close>, which the pool holds pinned, and no failure of the pool is
  scripted.\<close>

definition positioned :: "HeapFileScan \<Rightarrow> World \<Rightarrow> bool" where
  "positioned this w =
     (curPage this = Some (curPageNo this) \<and> 0 < pinCnt w (curPageNo this) \<and> faults w = [])"

text \<open>Every link of a data page is -1 or leads to a data page.\<close>

definition links_closed :: "World \<Rightarrow> bool" where
  "links_closed w =
     (\<forall>p pg. data_at w p = Some pg \<longrightarrow> nextPage pg = - 1 \<or> data_at w (nextPage pg) \<noteq> None)"

text \<open>Any number of calls of \<^verbatim>\<open>scanNext\<close> that return, one for each output argument
  of the list, whatever their statuses.\<close>

fun scan_calls :: "RID list \<Rightarrow> HeapFileScan \<Rightarrow> World \<Rightarrow> (HeapFileScan \<times> World) option" where
  "scan_calls [] this w = Some (this, w)"
| "scan_calls (outRid # rs) this w =
     (case scanNext outRid this w of
        None \<Rightarrow> None
      | Some (status, rid, this1, w1) \<Rightarrow> scan_calls rs this1 w1)"

text \<open>The world after the current page \<open>p\<close> is unpinned with the flag \<open>d\<close> and the
  page \<open>q\<close> is pinned.\<close>

definition turn_page :: "World \<Rightarrow> int \<Rightarrow> bool \<Rightarrow> int \<Rightarrow> World" where
  "turn_page w p d q = snd (readPage (snd (unPinPage w p d)) q)"

text \<open>The scan \<open>this\<close> stands in the file of the world \<open>w0\<close>, the pages behind its
  current page are \<open>ps\<close>, and the records it has not passed yet are \<open>es\<close>.\<close>

definition at_pos ::
  "World \<Rightarrow> HeapFileScan \<Rightarrow> World \<Rightarrow> int list \<Rightarrow> (RID \<times> Record) list \<Rightarrow> bool" where
  "at_pos w0 this w ps es =
     (positioned this w \<and> pages w = pages w0 \<and>
      (\<exists>pg n. data_at w0 (curPageNo this) = Some pg \<and> walk w0 (nextPage pg) n = Some ps \<and>
              es = entries_from pg (slotNo (curRec this) + 1) @ file_entries w0 ps))"

text \<open>What one call of \<^verbatim>\<open>scanNext\<close> does with the records \<open>es\<close> ahead: it returns
  the first that matches and stands behind it, or \<open>FILEEOF\<close> when none matches.\<close>

definition next_match ::
  "World \<Rightarrow> RID \<Rightarrow> HeapFileScan \<Rightarrow> World \<Rightarrow> (RID \<times> Record) list \<Rightarrow> bool" where
  "next_match w0 outRid this w es =
     (case dropWhile (\<lambda>(rid, r). matchRec this r \<noteq> Some True) es of
        [] \<Rightarrow> (\<exists>this1 w1. scanNext outRid this w = Some (FILEEOF, outRid, this1, w1))
      | (rid, r) # es1 \<Rightarrow>
          (\<exists>this1 w1 ps1. scanNext outRid this w = Some (OK, rid, this1, w1) \<and>
             at_pos w0 this1 w1 ps1 es1 \<and> matchRec this1 = matchRec this))"

text \<open>Two scans with the same filter, and two scans with the same filter at the same
  position in the same file.\<close>

definition same_filter :: "HeapFileScan \<Rightarrow> HeapFileScan \<Rightarrow> bool" where
  "same_filter a b =
     (offset b = offset a \<and> length_s b = length_s a \<and> type_s b = type_s a \<and>
      filter_s b = filter_s a \<and> op_s b = op_s a)"

definition same_pos :: "World \<Rightarrow> HeapFileScan \<Rightarrow> World \<Rightarrow> HeapFileScan \<Rightarrow> World \<Rightarrow> bool" where
  "same_pos w0 this w this' w' =
     (positioned this w \<and> positioned this' w' \<and> pages w = pages w0 \<and> pages w' = pages w0 \<and>
      curPageNo this' = curPageNo this \<and> curRec this' = curRec this \<and> same_filter this this')"

text \<open>The scans \<open>t\<close> and \<open>t'\<close> are what an activation made of \<open>this\<close> and \<open>this'\<close>:
  they are at the same position, and the members of the filter and of the mark are
  untouched.\<close>

definition after ::
  "World \<Rightarrow> HeapFileScan \<Rightarrow> HeapFileScan \<Rightarrow> HeapFileScan \<Rightarrow> World \<Rightarrow> HeapFileScan \<Rightarrow> World \<Rightarrow> bool"
where
  "after w0 this this' t v t' v' =
     (same_pos w0 t v t' v' \<and> HeapFile.more t = HeapFile.more this \<and>
      HeapFile.more t' = HeapFile.more this')"

text \<open>Two activations end the same way.\<close>

definition sim_ctl :: "World \<Rightarrow> HeapFileScan \<Rightarrow> HeapFileScan \<Rightarrow> scan_ctl \<Rightarrow> scan_ctl \<Rightarrow> bool" where
  "sim_ctl w0 this this' c c' =
     (case c of
        Undefined \<Rightarrow> c' = Undefined
      | Return st rid t v \<Rightarrow> (\<exists>t' v'. c' = Return st rid t' v' \<and> after w0 this this' t v t' v')
      | Again t v \<Rightarrow> (\<exists>t' v'. c' = Again t' v' \<and> after w0 this this' t v t' v'))"

section \<open>Example files\<close>

text \<open>The storage of a handle and of a scan before their construction, filled with
  zeros.\<close>

definition fresh_HeapFile :: HeapFile where
  "fresh_HeapFile =
     \<lparr>headerPage = None, headerPageNo = 0, hdrDirtyFlag = False, curPage = None,
      curPageNo = 0, curDirtyFlag = False, curRec = \<lparr>pageNo = 0, slotNo = 0\<rparr>\<rparr>"

definition fresh_HeapFileScan :: HeapFileScan where
  "fresh_HeapFileScan =
     \<lparr>headerPage = None, headerPageNo = 0, hdrDirtyFlag = False, curPage = None,
      curPageNo = 0, curDirtyFlag = False, curRec = \<lparr>pageNo = 0, slotNo = 0\<rparr>,
      offset = 0, length_s = 0, type_s = STRING, filter_s = None, op_s = LT,
      markedPageNo = 0, markedRec = \<lparr>pageNo = 0, slotNo = 0\<rparr>\<rparr>"

text \<open>A record of \<open>n\<close> bytes \<open>b\<close>.\<close>

definition mk_rec :: "nat \<Rightarrow> byte \<Rightarrow> Record" where
  "mk_rec n b = \<lparr>data = replicate n b, length_r = int n\<rparr>"

text \<open>No file yet, and nothing in the pool.\<close>

definition no_file :: World where
  "no_file =
     \<lparr>fileExists = False, openCnt = 0, nAlloc = 0, pages = Map.empty,
      pinCnt = (\<lambda>p. 0), dirty = (\<lambda>p. False), faults = []\<rparr>"

text \<open>A closed heap file with one data page, which holds a record of 600 bytes; every
  frame is clean.\<close>

definition file1 :: World where
  "file1 =
     \<lparr>fileExists = True, openCnt = 0, nAlloc = 2,
      pages = [1 \<mapsto> Hdr \<lparr>fileName = ''t'', firstPage = 2, lastPage = 2, pageCnt = 1,
                           recCnt = 1\<rparr>,
               2 \<mapsto> Data \<lparr>pageNumber = 2, nextPage = - 1, slots = [Some (mk_rec 600 1)]\<rparr>],
      pinCnt = (\<lambda>p. 0), dirty = (\<lambda>p. False), faults = []\<rparr>"

text \<open>A closed heap file with two data pages, each with a record of 600 bytes.\<close>

definition file2 :: World where
  "file2 =
     \<lparr>fileExists = True, openCnt = 0, nAlloc = 3,
      pages = [1 \<mapsto> Hdr \<lparr>fileName = ''t'', firstPage = 2, lastPage = 3, pageCnt = 2,
                           recCnt = 2\<rparr>,
               2 \<mapsto> Data \<lparr>pageNumber = 2, nextPage = 3, slots = [Some (mk_rec 600 1)]\<rparr>,
               3 \<mapsto> Data \<lparr>pageNumber = 3, nextPage = - 1, slots = [Some (mk_rec 600 2)]\<rparr>],
      pinCnt = (\<lambda>p. 0), dirty = (\<lambda>p. False), faults = []\<rparr>"

text \<open>A heap file without data pages.\<close>

definition file0 :: World where
  "file0 =
     \<lparr>fileExists = True, openCnt = 0, nAlloc = 1,
      pages = [1 \<mapsto> Hdr \<lparr>fileName = ''t'', firstPage = - 1, lastPage = - 1, pageCnt = 0,
                           recCnt = 0\<rparr>],
      pinCnt = (\<lambda>p. 0), dirty = (\<lambda>p. False), faults = []\<rparr>"

text \<open>A scan whose header is page 1, with the current page \<open>p\<close> and the current
  record \<open>rid\<close>, and the world in which it holds its two pins.\<close>

definition scan_at :: "int \<Rightarrow> RID \<Rightarrow> HeapFileScan" where
  "scan_at p rid =
     fresh_HeapFileScan\<lparr>headerPage := Some 1, headerPageNo := 1, curPage := Some p,
                        curPageNo := p, curRec := rid\<rparr>"

definition pinned :: "World \<Rightarrow> int \<Rightarrow> World" where
  "pinned w p = w\<lparr>openCnt := 1, pinCnt := (pinCnt w)(1 := 1, p := 1)\<rparr>"

text \<open>A heap file with three data pages: two records and a free slot between them on
  page 2, no record on page 3, one record on page 4. The records are one byte long.\<close>

definition file3 :: World where
  "file3 =
     \<lparr>fileExists = True, openCnt = 0, nAlloc = 4,
      pages = [1 \<mapsto> Hdr \<lparr>fileName = ''t'', firstPage = 2, lastPage = 4, pageCnt = 3,
                           recCnt = 3\<rparr>,
               2 \<mapsto> Data \<lparr>pageNumber = 2, nextPage = 3,
                            slots = [Some \<lparr>data = [1], length_r = 1\<rparr>, None,
                                     Some \<lparr>data = [2], length_r = 1\<rparr>]\<rparr>,
               3 \<mapsto> Data \<lparr>pageNumber = 3, nextPage = 4, slots = [None]\<rparr>,
               4 \<mapsto> Data \<lparr>pageNumber = 4, nextPage = - 1,
                            slots = [Some \<lparr>data = [2], length_r = 1\<rparr>]\<rparr>],
      pinCnt = (\<lambda>p. 0), dirty = (\<lambda>p. False), faults = []\<rparr>"

text \<open>The status and the record identifier a call of \<^verbatim>\<open>scanNext\<close> returned.\<close>

definition status_rid ::
  "(Status \<times> RID \<times> HeapFileScan \<times> World) option \<Rightarrow> (Status \<times> RID) option" where
  "status_rid res = map_option (\<lambda>(st, rid, t, v). (st, rid)) res"

text \<open>A scan on the file of three pages that stood on the last record of page 2 and was
  ended by \<^verbatim>\<open>endScan\<close>: it has no current page.\<close>

definition ended_scan :: "Status \<times> HeapFileScan \<times> World" where
  "ended_scan = endScan (scan_at 2 \<lparr>pageNo = 2, slotNo = 2\<rparr>) (pinned file3 2)"

text \<open>The ended scan is marked, and \<^verbatim>\<open>scanNext\<close> is called.\<close>

definition mark_then_next :: "(Status \<times> RID) option" where
  "mark_then_next =
     (case ended_scan of (st, this, w) \<Rightarrow>
        status_rid (scanNext NULLRID (snd (markScan this)) w))"

text \<open>The ended scan is marked, \<^verbatim>\<open>scanNext\<close> is called once, the scan is reset, and
  \<^verbatim>\<open>scanNext\<close> is called: the status of \<^verbatim>\<open>resetScan\<close>, \<^verbatim>\<open>curPage\<close> behind it, and
  what the last call returned.\<close>

definition mark_next_reset_then_next ::
  "(Status \<times> int option \<times> (Status \<times> RID) option) option" where
  "mark_next_reset_then_next =
     (case ended_scan of (st, this, w) \<Rightarrow>
        (case scan_calls [NULLRID] (snd (markScan this)) w of
           None \<Rightarrow> None
         | Some (this1, w1) \<Rightarrow>
             (case resetScan this1 w1 of (st2, this2, w2) \<Rightarrow>
                Some (st2, curPage this2, status_rid (scanNext NULLRID this2 w2)))))"

text \<open>An insert scan is opened on the file and one record is inserted.\<close>

definition open_insert :: "World \<Rightarrow> Record \<Rightarrow> (Status \<times> RID \<times> HeapFile \<times> World) option" where
  "open_insert w rec =
     (case InsertFileScan_ctor ''t'' fresh_HeapFile w of
        None \<Rightarrow> None
      | Some (status, this, w1) \<Rightarrow>
          if status \<noteq> OK then None else insertRecord rec NULLRID this w1)"

text \<open>The file is created, an insert scan is opened, two records of 600 bytes are
  inserted and the scan is destroyed.\<close>

definition build2 :: "World option" where
  "build2 =
     (case createHeapFile ''t'' no_file of
        None \<Rightarrow> None
      | Some (st, w1) \<Rightarrow>
          (case open_insert w1 (mk_rec 600 1) of
             None \<Rightarrow> None
           | Some (st, rid, this, w2) \<Rightarrow>
               (case insertRecord (mk_rec 600 2) rid this w2 of
                  None \<Rightarrow> None
                | Some (st, rid, this, w3) \<Rightarrow> InsertFileScan_dtor this w3)))"

section \<open>Evaluating the operations\<close>

lemmas world_defs =
  openFile_def createFile_def closeFile_def getFirstPage_def next_fault_def allocPage_def
  readPage_def unPinPage_def data_at_def hdr_at_def put_data_def put_hdr_def

lemmas page_defs =
  init_def used_space_def live_def page_getRecord_def page_insertRecord_def
  page_deleteRecord_def live_from_def firstRecord_def nextRecord_def getNextPage_def
  setNextPage_def PAGESPACE_def NULLRID_def

lemmas insert_defs =
  InsertFileScan_ctor_def HeapFile_ctor_def header_def cur_data_def insertRecord_def
  insert_begin_def insert_extend_def InsertFileScan_dtor_def HeapFile_dtor_def

lemmas scan_defs =
  scanNext_step_def scan_begin_def scan_advance_def scan_filter_def cur_data_def header_def
  matchRec_def resetScan_def markScan_def

lemmas example_defs =
  fresh_HeapFile_def fresh_HeapFileScan_def mk_rec_def no_file_def file0_def file1_def
  file2_def file3_def scan_at_def pinned_def open_insert_def

text \<open>The file \<open>file2\<close> is what the layer itself builds: its pages are those of
  \<open>build2\<close>, with nothing left pinned and the file closed.\<close>

lemma file2_built:
  "map_option (\<lambda>w. (pages w, nAlloc w, pinCnt w 1, pinCnt w 2, pinCnt w 3, openCnt w)) build2
   = Some (pages file2, 3, 0, 0, 0, 0)"
  by (simp add: build2_def createHeapFile_def example_defs insert_defs world_defs page_defs
      fun_upd_twist)

lemma walk_numeral:
  "walk w p (numeral k) =
     (if p = - 1 then Some []
      else case data_at w p of
             None \<Rightarrow> None
           | Some pg \<Rightarrow>
               (case walk w (nextPage pg) (pred_numeral k) of
                  None \<Rightarrow> None
                | Some ps \<Rightarrow> Some (p # ps)))"
  by (simp add: numeral_eq_Suc)

lemma file2_consistent: "consistent file2 1"
  by (simp add: consistent_def live_count_def example_defs world_defs walk_numeral)

section \<open>Slots and pointers\<close>

lemma first_live_None: "first_live i ss = None \<longleftrightarrow> (\<forall>s\<in>set ss. s = None)"
  by (induction ss arbitrary: i) auto

lemma set_drop_live:
  "(\<forall>s\<in>set (drop (nat k) (slots pg)). s = None) \<longleftrightarrow> (\<forall>i\<ge>k. \<not> live pg i)"
proof
  assume a: "\<forall>s\<in>set (drop (nat k) (slots pg)). s = None"
  show "\<forall>i\<ge>k. \<not> live pg i"
  proof (intro allI impI notI)
    fix i assume ki: "k \<le> i" and l: "live pg i"
    from l have i1: "0 \<le> i" and i2: "i < int (length (slots pg))"
      and i3: "slots pg ! nat i \<noteq> None"
      unfolding live_def by blast+
    from i1 i2 have i2': "nat i < length (slots pg)" by linarith
    from ki i1 have le: "nat k \<le> nat i" by linarith
    have "slots pg ! nat i \<in> set (drop (nat k) (slots pg))"
      unfolding set_conv_nth
    proof (rule CollectI, intro exI conjI)
      show "slots pg ! nat i = drop (nat k) (slots pg) ! (nat i - nat k)"
        using le i2' by simp
      show "nat i - nat k < length (drop (nat k) (slots pg))"
        using le i2' by simp
    qed
    then have "slots pg ! nat i = None" by (rule a [THEN bspec])
    with i3 show False by simp
  qed
next
  assume a: "\<forall>i\<ge>k. \<not> live pg i"
  show "\<forall>s\<in>set (drop (nat k) (slots pg)). s = None"
  proof
    fix s assume "s \<in> set (drop (nat k) (slots pg))"
    then obtain m where m1: "m < length (drop (nat k) (slots pg))"
      and m2: "s = drop (nat k) (slots pg) ! m"
      unfolding in_set_conv_nth by blast
    define j where "j = nat k + m"
    from m1 have j1: "j < length (slots pg)" by (simp add: j_def)
    have j2: "s = slots pg ! j" using m1 m2 by (simp add: j_def)
    have "k \<le> int j" unfolding j_def by linarith
    then have "\<not> live pg (int j)" by (rule a [THEN spec, THEN mp])
    then have "slots pg ! j = None"
      using j1 by (simp add: live_def)
    with j2 show "s = None" by simp
  qed
qed

lemma live_from_None:
  "live_from pg k = None \<longleftrightarrow> (\<forall>i\<ge>k. \<not> live pg i)"
  unfolding live_from_def first_live_None by (rule set_drop_live)

lemma data_hdr_distinct:
  assumes "data_at w p = Some pg" and "hdr_at w hp = Some hdr"
  shows "hp \<noteq> p"
  using assms by (auto simp: data_at_def hdr_at_def split: option.splits PageImage.splits)

lemma deleteRecord_eq:
  assumes "curPage this = Some p" and "data_at w p = Some pg"
    and "headerPage this = Some hp" and "hdr_at w hp = Some hdr"
  shows "deleteRecord this w =
           Some (fst (page_deleteRecord pg (curRec this)),
                 this\<lparr>curDirtyFlag := True, hdrDirtyFlag := True\<rparr>,
                 put_hdr (put_data w p (snd (page_deleteRecord pg (curRec this)))) hp
                   (hdr\<lparr>recCnt := recCnt hdr - 1\<rparr>))"
proof -
  have ne: "hp \<noteq> p" using assms(2,4) by (rule data_hdr_distinct)
  have c: "cur_data this w = Some (p, pg)"
    using assms(1,2) by (simp add: cur_data_def)
  have h: "header (this\<lparr>curDirtyFlag := True\<rparr>)
             (put_data w p (snd (page_deleteRecord pg (curRec this)))) = Some (hp, hdr)"
    using assms(3,4) ne by (simp add: header_def hdr_at_def put_data_def)
  show ?thesis
    by (simp add: deleteRecord_def c h Let_def split_beta)
qed

lemma entries_all_None: "(\<forall>s\<in>set ss. s = None) \<Longrightarrow> entries n i ss = []"
  by (induction ss arbitrary: i) simp_all

lemma first_live_entries_None: "first_live i ss = None \<Longrightarrow> entries n i ss = []"
  by (simp add: first_live_None entries_all_None)

lemma first_live_entries_Some:
  "first_live i ss = Some j \<Longrightarrow>
   \<exists>r. i \<le> j \<and> nat (j - i) < length ss \<and> ss ! nat (j - i) = Some r \<and>
       entries n i ss =
         (\<lparr>pageNo = n, slotNo = j\<rparr>, r) # entries n (j + 1) (drop (Suc (nat (j - i))) ss)"
proof (induction ss arbitrary: i)
  case Nil
  then show ?case by simp
next
  case (Cons s ss)
  show ?case
  proof (cases s)
    case None
    with Cons.prems have "first_live (i + 1) ss = Some j" by simp
    from Cons.IH [OF this] obtain r where r: "i + 1 \<le> j" "nat (j - (i + 1)) < length ss"
      "ss ! nat (j - (i + 1)) = Some r"
      "entries n (i + 1) ss =
         (\<lparr>pageNo = n, slotNo = j\<rparr>, r) # entries n (j + 1) (drop (Suc (nat (j - (i + 1)))) ss)"
      by blast
    from r(1) have e: "nat (j - i) = Suc (nat (j - (i + 1)))" by linarith
    show ?thesis
      using r None by (intro exI [of _ r]) (simp add: e)
  next
    case (Some r)
    with Cons.prems have "j = i" by simp
    then show ?thesis using Some by simp
  qed
qed

lemma entries_from_None: "live_from pg k = None \<Longrightarrow> entries_from pg k = []"
  by (simp add: live_from_def entries_from_def first_live_entries_None)

lemma entries_from_Some:
  assumes "live_from pg k = Some j"
  shows "\<exists>r. k \<le> j \<and> 0 \<le> j \<and> live pg j \<and> slots pg ! nat j = Some r \<and>
            entries_from pg k =
              (\<lparr>pageNo = pageNumber pg, slotNo = j\<rparr>, r) # entries_from pg (j + 1)"
proof -
  define i where "i = max k 0"
  define ss where "ss = drop (nat k) (slots pg)"
  from assms have "first_live i ss = Some j" by (simp add: live_from_def i_def ss_def)
  from first_live_entries_Some [OF this, of "pageNumber pg"]
  obtain r where r: "i \<le> j" "nat (j - i) < length ss" "ss ! nat (j - i) = Some r"
    "entries (pageNumber pg) i ss =
       (\<lparr>pageNo = pageNumber pg, slotNo = j\<rparr>, r) #
       entries (pageNumber pg) (j + 1) (drop (Suc (nat (j - i))) ss)"
    by blast
  have j0: "0 \<le> j" and kj: "k \<le> j" using r(1) by (simp_all add: i_def)
  have idx: "nat k + nat (j - i) = nat j"
  proof (cases "k \<le> 0")
    case True
    then have "i = 0" by (simp add: i_def)
    with True show ?thesis by simp
  next
    case False
    then have "i = k" by (simp add: i_def)
    with False r(1) show ?thesis by linarith
  qed
  have len: "nat j < length (slots pg)" using r(2) idx unfolding ss_def length_drop by linarith
  have nth: "slots pg ! nat j = Some r"
    using r(3) len idx by (simp add: ss_def)
  have dr: "drop (Suc (nat (j - i))) ss = drop (nat (j + 1)) (slots pg)"
  proof -
    have "Suc (nat (j - i)) + nat k = nat (j + 1)" using idx j0 by linarith
    then show ?thesis by (simp add: ss_def)
  qed
  have lv: "live pg j" using j0 len nth by (simp add: live_def)
  have "entries_from pg k =
          (\<lparr>pageNo = pageNumber pg, slotNo = j\<rparr>, r) # entries_from pg (j + 1)"
    using r(4) dr j0 by (simp add: entries_from_def i_def ss_def max_def)
  with kj j0 lv nth show ?thesis by blast
qed

lemma entries_from_no_live:
  assumes "live_from pg 0 = None"
  shows "entries_from pg k = []"
proof -
  from assms have a: "\<forall>s\<in>set (slots pg). s = None"
    by (simp add: live_from_def first_live_None)
  have "\<forall>s\<in>set (drop (nat k) (slots pg)). s = None"
  proof
    fix s assume "s \<in> set (drop (nat k) (slots pg))"
    then have "s \<in> set (slots pg)" by (rule in_set_dropD)
    then show "s = None" by (rule a [THEN bspec])
  qed
  then show ?thesis by (simp add: entries_from_def entries_all_None)
qed

lemma page_entries_from: "page_entries pg = entries_from pg 0"
  by (simp add: page_entries_def entries_from_def)

lemma file_entries_Cons:
  "data_at w p = Some pg \<Longrightarrow> file_entries w (p # ps) = page_entries pg @ file_entries w ps"
  by (simp add: file_entries_def)

lemma file_entries_Nil: "file_entries w [] = []"
  by (simp add: file_entries_def)

lemma walk_end: "walk w (- 1) n = Some ps \<Longrightarrow> ps = []"
  by (cases n) simp_all

lemma walk_next:
  assumes "walk w p n = Some ps" and "p \<noteq> - 1"
  shows "\<exists>pg n' qs. data_at w p = Some pg \<and> walk w (nextPage pg) n' = Some qs \<and> ps = p # qs"
proof (cases n)
  case 0
  with assms show ?thesis by simp
next
  case (Suc n')
  with assms obtain pg where pg: "data_at w p = Some pg"
    by (cases "data_at w p") simp_all
  with assms Suc obtain qs where "walk w (nextPage pg) n' = Some qs" "ps = p # qs"
    by (cases "walk w (nextPage pg) n'") auto
  with pg show ?thesis by blast
qed

lemma hdr_at_exists: "hdr_at w p = Some hdr \<Longrightarrow> pages w p \<noteq> None"
  by (auto simp: hdr_at_def split: option.splits)

section \<open>One activation of \<^verbatim>\<open>scanNext\<close>\<close>

lemma unPinPage_ok:
  "faults w = [] \<Longrightarrow> 0 < pinCnt w p \<Longrightarrow>
   unPinPage w p d =
     (OK, w\<lparr>pinCnt := (pinCnt w)(p := pinCnt w p - 1), dirty := (dirty w)(p := dirty w p \<or> d)\<rparr>)"
  by (simp add: unPinPage_def next_fault_def)

lemma readPage_ok:
  "faults w = [] \<Longrightarrow> pages w p \<noteq> None \<Longrightarrow>
   readPage w p = (OK, w\<lparr>pinCnt := (pinCnt w)(p := pinCnt w p + 1)\<rparr>)"
  by (simp add: readPage_def next_fault_def)

lemma turn_page_props:
  assumes "faults w = []" "0 < pinCnt w p" "pages w q \<noteq> None"
  shows "unPinPage w p d = (OK, snd (unPinPage w p d))"
    and "readPage (snd (unPinPage w p d)) q = (OK, turn_page w p d q)"
    and "pages (turn_page w p d q) = pages w"
    and "faults (turn_page w p d q) = []"
    and "0 < pinCnt (turn_page w p d q) q"
  using assms by (simp_all add: turn_page_def unPinPage_ok readPage_ok)

lemma data_at_pages: "pages w' = pages w \<Longrightarrow> data_at w' p = data_at w p"
  by (simp add: data_at_def)

lemma matchRec_curRec [simp]: "matchRec (this\<lparr>curRec := x\<rparr>) r = matchRec this r"
  by (simp add: matchRec_def attr_diff_def
      cong: option.case_cong Datatype.case_cong if_cong)

lemma matchRec_curPage [simp]:
  "matchRec (this\<lparr>curPage := a, curPageNo := b, curDirtyFlag := c\<rparr>) r = matchRec this r"
  by (simp add: matchRec_def attr_diff_def
      cong: option.case_cong Datatype.case_cong if_cong)

lemma matchRec_curRec_fun: "matchRec (this\<lparr>curRec := x\<rparr>) = matchRec this"
  by (rule ext) simp

lemma matchRec_curPage_fun:
  "matchRec (this\<lparr>curPage := a, curPageNo := b, curDirtyFlag := c\<rparr>) = matchRec this"
  by (rule ext) simp

lemma positioned_curRec: "positioned (this\<lparr>curRec := x\<rparr>) w = positioned this w"
  by (simp add: positioned_def)

lemma scan_filter_live:
  assumes "cur_data this w = Some (p, pg)" and "slots pg ! nat (slotNo (curRec this)) = Some r"
    and "live pg (slotNo (curRec this))"
  shows "scan_filter outRid this w =
           (case matchRec this r of
              None \<Rightarrow> Undefined
            | Some m \<Rightarrow> if m then Return OK (curRec this) this w else Again this w)"
proof (cases "filter_s this")
  case None
  then show ?thesis by (simp add: scan_filter_def matchRec_def)
next
  case (Some flt)
  then show ?thesis
    using assms by (simp add: scan_filter_def page_getRecord_def)
qed

lemma step_same_page:
  assumes "curPage this = Some p" and "data_at w p = Some pg"
    and "live_from pg (slotNo (curRec this) + 1) = Some j"
    and "slots pg ! nat j = Some r" and "live pg j"
  shows "scanNext_step outRid this w =
           (case matchRec this r of
              None \<Rightarrow> Undefined
            | Some m \<Rightarrow>
                if m then Return OK \<lparr>pageNo = pageNumber pg, slotNo = j\<rparr>
                            (this\<lparr>curRec := \<lparr>pageNo = pageNumber pg, slotNo = j\<rparr>\<rparr>) w
                else Again (this\<lparr>curRec := \<lparr>pageNo = pageNumber pg, slotNo = j\<rparr>\<rparr>) w)"
proof -
  let ?rid = "\<lparr>pageNo = pageNumber pg, slotNo = j\<rparr>"
  have c: "cur_data this w = Some (p, pg)" using assms(1,2) by (simp add: cur_data_def)
  have b: "scan_begin outRid this w = Inr (this, w)"
    using assms(1) by (simp add: scan_begin_def)
  have a: "scan_advance outRid this w = Inr (this\<lparr>curRec := ?rid\<rparr>, w)"
    using c assms(3) by (simp add: scan_advance_def nextRecord_def)
  have c': "cur_data (this\<lparr>curRec := ?rid\<rparr>) w = Some (p, pg)"
    using assms(1,2) by (simp add: cur_data_def)
  have f: "scan_filter outRid (this\<lparr>curRec := ?rid\<rparr>) w =
           (case matchRec (this\<lparr>curRec := ?rid\<rparr>) r of
              None \<Rightarrow> Undefined
            | Some m \<Rightarrow> if m then Return OK (curRec (this\<lparr>curRec := ?rid\<rparr>)) (this\<lparr>curRec := ?rid\<rparr>) w
                       else Again (this\<lparr>curRec := ?rid\<rparr>) w)"
    by (rule scan_filter_live [OF c']) (simp_all add: assms(4,5))
  show ?thesis
    by (simp add: scanNext_step_def b a f cong: option.case_cong if_cong)
qed

lemma step_eof:
  assumes "curPage this = Some p" and "data_at w p = Some pg"
    and "live_from pg (slotNo (curRec this) + 1) = None" and "nextPage pg = - 1"
  shows "scanNext_step outRid this w = Return FILEEOF outRid this w"
proof -
  have c: "cur_data this w = Some (p, pg)" using assms(1,2) by (simp add: cur_data_def)
  have b: "scan_begin outRid this w = Inr (this, w)"
    using assms(1) by (simp add: scan_begin_def)
  have a: "scan_advance outRid this w = Inl (Return FILEEOF outRid this w)"
    using c assms(3,4) by (simp add: scan_advance_def nextRecord_def getNextPage_def)
  show ?thesis by (simp add: scanNext_step_def b a)
qed

lemma step_next_page:
  assumes pos: "positioned this w" and cp: "curPageNo this = p"
    and pg: "data_at w p = Some pg"
    and nl: "live_from pg (slotNo (curRec this) + 1) = None"
    and q: "nextPage pg = q" "q \<noteq> - 1" and pgq: "data_at w q = Some pgq"
  defines "this1 \<equiv> this\<lparr>curPage := Some q, curPageNo := q, curDirtyFlag := False\<rparr>"
    and "w2 \<equiv> turn_page w p (curDirtyFlag this) q"
  shows "live_from pgq 0 = None \<Longrightarrow> scanNext_step outRid this w = Again this1 w2"
    and "live_from pgq 0 = Some j \<Longrightarrow> slots pgq ! nat j = Some r \<Longrightarrow> live pgq j \<Longrightarrow>
         scanNext_step outRid this w =
           (case matchRec this r of
              None \<Rightarrow> Undefined
            | Some m \<Rightarrow>
                if m then Return OK \<lparr>pageNo = pageNumber pgq, slotNo = j\<rparr>
                            (this1\<lparr>curRec := \<lparr>pageNo = pageNumber pgq, slotNo = j\<rparr>\<rparr>) w2
                else Again (this1\<lparr>curRec := \<lparr>pageNo = pageNumber pgq, slotNo = j\<rparr>\<rparr>) w2)"
proof -
  from pos cp have cur: "curPage this = Some p" and pin: "0 < pinCnt w p" and fl: "faults w = []"
    by (simp_all add: positioned_def)
  have ex: "pages w q \<noteq> None" using pgq by (auto simp: data_at_def split: option.splits)
  note tp = turn_page_props [OF fl pin ex, of "curDirtyFlag this"]
  have c: "cur_data this w = Some (p, pg)" using cur pg by (simp add: cur_data_def)
  have b: "scan_begin outRid this w = Inr (this, w)"
    using cur by (simp add: scan_begin_def)
  have d2: "data_at w2 q = Some pgq"
    using pgq tp(3) by (simp add: w2_def data_at_def)
  have c1: "cur_data this1 w2 = Some (q, pgq)"
    using d2 by (simp add: cur_data_def this1_def)
  have u: "unPinPage w (curPageNo this) (curDirtyFlag this) =
             (OK, snd (unPinPage w p (curDirtyFlag this)))"
    using tp(1) cp by simp
  have rd: "readPage (snd (unPinPage w p (curDirtyFlag this))) q = (OK, w2)"
    using tp(2) by (simp add: w2_def)
  {
    assume n: "live_from pgq 0 = None"
    have a: "scan_advance outRid this w = Inl (Again this1 w2)"
      using c nl q n c1
      by (simp add: scan_advance_def nextRecord_def getNextPage_def u rd firstRecord_def
          this1_def [symmetric] Let_def)
    show "scanNext_step outRid this w = Again this1 w2"
      by (simp add: scanNext_step_def b a)
  }
  {
    assume s: "live_from pgq 0 = Some j" and r: "slots pgq ! nat j = Some r" and l: "live pgq j"
    let ?rid = "\<lparr>pageNo = pageNumber pgq, slotNo = j\<rparr>"
    have a: "scan_advance outRid this w = Inr (this1\<lparr>curRec := ?rid\<rparr>, w2)"
      using c nl q s c1
      by (simp add: scan_advance_def nextRecord_def getNextPage_def u rd firstRecord_def
          this1_def [symmetric] Let_def)
    have c2: "cur_data (this1\<lparr>curRec := ?rid\<rparr>) w2 = Some (q, pgq)"
      using c1 by (simp add: cur_data_def)
    have f: "scan_filter outRid (this1\<lparr>curRec := ?rid\<rparr>) w2 =
           (case matchRec (this1\<lparr>curRec := ?rid\<rparr>) r of
              None \<Rightarrow> Undefined
            | Some m \<Rightarrow> if m then Return OK (curRec (this1\<lparr>curRec := ?rid\<rparr>)) (this1\<lparr>curRec := ?rid\<rparr>) w2
                       else Again (this1\<lparr>curRec := ?rid\<rparr>) w2)"
      by (rule scan_filter_live [OF c2]) (simp_all add: r l)
    have m: "matchRec this1 r = matchRec this r"
      by (simp add: this1_def)
    show "scanNext_step outRid this w =
           (case matchRec this r of
              None \<Rightarrow> Undefined
            | Some m \<Rightarrow>
                if m then Return OK ?rid (this1\<lparr>curRec := ?rid\<rparr>) w2
                else Again (this1\<lparr>curRec := ?rid\<rparr>) w2)"
      by (simp add: scanNext_step_def b a f m cong: option.case_cong if_cong)
  }
qed

lemma step_no_data:
  assumes "curPage this = Some p" and "data_at w p = None"
  shows "scanNext_step outRid this w = Undefined"
proof -
  have b: "scan_begin outRid this w = Inr (this, w)"
    using assms(1) by (simp add: scan_begin_def)
  have c: "cur_data this w = None" using assms by (simp add: cur_data_def)
  have a: "scan_advance outRid this w = Inl Undefined"
    by (simp add: scan_advance_def c)
  show ?thesis by (simp add: scanNext_step_def b a)
qed

lemma scanNext_Return:
  "scanNext_step outRid this w = Return st rid this1 w1 \<Longrightarrow>
   scanNext outRid this w = Some (st, rid, this1, w1)"
  by (subst scanNext.simps) simp

lemma scanNext_Again:
  "scanNext_step outRid this w = Again this1 w1 \<Longrightarrow>
   scanNext outRid this w = scanNext outRid this1 w1"
  by (subst scanNext.simps) simp

section \<open>A scan from a position to the end\<close>

lemma next_match_found:
  assumes "matchRec this r = Some True"
    and "scanNext outRid this w = Some (OK, rid, this1, w1)"
    and "at_pos w0 this1 w1 ps1 es1" and "matchRec this1 = matchRec this"
  shows "next_match w0 outRid this w ((rid, r) # es1)"
  using assms unfolding next_match_def by (simp, blast)

lemma next_match_same:
  assumes "scanNext outRid this w = scanNext outRid this1 w1"
    and "matchRec this1 = matchRec this"
    and "next_match w0 outRid this1 w1 es"
  shows "next_match w0 outRid this w es"
  using assms(3) unfolding next_match_def assms(1) assms(2) [symmetric] .

lemma next_match_skip:
  assumes "matchRec this r = Some False"
    and "scanNext outRid this w = scanNext outRid this1 w1"
    and "matchRec this1 = matchRec this"
    and "next_match w0 outRid this1 w1 es1"
  shows "next_match w0 outRid this w ((rid, r) # es1)"
proof -
  have "next_match w0 outRid this w es1"
    using assms(2,3,4) by (rule next_match_same)
  then show ?thesis
    using assms(1) unfolding next_match_def by simp
qed

lemma next_match_eof:
  assumes "scanNext outRid this w = Some (FILEEOF, outRid, this1, w1)"
  shows "next_match w0 outRid this w []"
  using assms unfolding next_match_def by simp

lemma at_pos_I:
  assumes "positioned this w" and "pages w = pages w0"
    and "data_at w0 (curPageNo this) = Some pg" and "walk w0 (nextPage pg) n = Some ps"
    and "es = entries_from pg (slotNo (curRec this) + 1) @ file_entries w0 ps"
  shows "at_pos w0 this w ps es"
  unfolding at_pos_def
  by (intro conjI exI [of _ pg] exI [of _ n]) (rule assms)+

lemma scanNext_next_match:
  assumes "at_pos w0 this w ps es" and "\<forall>(rid, r)\<in>set es. matchRec this r \<noteq> None"
  shows "next_match w0 outRid this w es"
  using assms
proof (induction "length es + length ps" arbitrary: this w ps es rule: less_induct)
  case less
  from less.prems(1) obtain pg n where
    pos: "positioned this w" and pw: "pages w = pages w0"
    and pg0: "data_at w0 (curPageNo this) = Some pg"
    and wk: "walk w0 (nextPage pg) n = Some ps"
    and es: "es = entries_from pg (slotNo (curRec this) + 1) @ file_entries w0 ps"
    unfolding at_pos_def by blast
  define p where "p = curPageNo this"
  have cur: "curPage this = Some p" using pos by (simp add: positioned_def p_def)
  have pg: "data_at w p = Some pg" using pg0 by (simp add: data_at_pages [OF pw] p_def)
  show ?case
  proof (cases "live_from pg (slotNo (curRec this) + 1)")
    case (Some j)
    from entries_from_Some [OF Some] obtain r where
      r: "live pg j" "slots pg ! nat j = Some r"
      and ef: "entries_from pg (slotNo (curRec this) + 1) =
                 (\<lparr>pageNo = pageNumber pg, slotNo = j\<rparr>, r) # entries_from pg (j + 1)"
      by blast
    define rid where "rid = \<lparr>pageNo = pageNumber pg, slotNo = j\<rparr>"
    define this1 where "this1 = this\<lparr>curRec := rid\<rparr>"
    define es1 where "es1 = entries_from pg (j + 1) @ file_entries w0 ps"
    have es': "es = (rid, r) # es1" by (simp add: es ef es1_def rid_def)
    have st: "scanNext_step outRid this w =
           (case matchRec this r of
              None \<Rightarrow> Undefined
            | Some m \<Rightarrow> if m then Return OK rid this1 w else Again this1 w)"
      unfolding rid_def this1_def by (rule step_same_page [OF cur pg Some r(2) r(1)])
    have mm: "matchRec this1 = matchRec this" by (simp add: this1_def matchRec_curRec_fun)
    have ap: "at_pos w0 this1 w ps es1"
    proof (rule at_pos_I)
      show "positioned this1 w" using pos by (simp add: this1_def positioned_curRec)
      show "pages w = pages w0" by (rule pw)
      show "data_at w0 (curPageNo this1) = Some pg" using pg0 by (simp add: this1_def)
      show "walk w0 (nextPage pg) n = Some ps" by (rule wk)
      show "es1 = entries_from pg (slotNo (curRec this1) + 1) @ file_entries w0 ps"
        by (simp add: es1_def this1_def rid_def)
    qed
    from less.prems(2) es' have "matchRec this r \<noteq> None" by simp
    then obtain m where m: "matchRec this r = Some m" by (cases "matchRec this r") simp_all
    show ?thesis
    proof (cases m)
      case True
      have "matchRec this r = Some True" using m True by simp
      moreover have "scanNext outRid this w = Some (OK, rid, this1, w)"
        by (rule scanNext_Return) (simp add: st m True)
      ultimately show ?thesis unfolding es' using ap mm by (rule next_match_found)
    next
      case False
      have sn: "scanNext outRid this w = scanNext outRid this1 w"
        by (rule scanNext_Again) (simp add: st m False)
      have safe1: "\<forall>(rid, r)\<in>set es1. matchRec this1 r \<noteq> None"
        using less.prems(2) es' mm by simp
      have nm: "next_match w0 outRid this1 w es1"
        by (rule less.hyps [OF _ ap safe1]) (simp add: es')
      have "matchRec this r = Some False" using m False by simp
      then show ?thesis unfolding es' using sn mm nm by (rule next_match_skip)
    qed
  next
    case None
    have es0: "es = file_entries w0 ps" by (simp add: es entries_from_None [OF None])
    show ?thesis
    proof (cases "nextPage pg = - 1")
      case True
      with wk have "ps = []" by (simp add: walk_end)
      then have "es = []" by (simp add: es0 file_entries_Nil)
      moreover have "scanNext outRid this w = Some (FILEEOF, outRid, this, w)"
        by (rule scanNext_Return) (rule step_eof [OF cur pg None True])
      ultimately show ?thesis by (simp add: next_match_eof)
    next
      case False
      define q where "q = nextPage pg"
      from walk_next [OF wk False] obtain pgq n' qs where
        pgq0: "data_at w0 q = Some pgq" and wq: "walk w0 (nextPage pgq) n' = Some qs"
        and ps: "ps = q # qs"
        unfolding q_def by blast
      have pgq: "data_at w q = Some pgq" using pgq0 by (simp add: data_at_pages [OF pw])
      define this1 where
        "this1 = this\<lparr>curPage := Some q, curPageNo := q, curDirtyFlag := False\<rparr>"
      define w2 where "w2 = turn_page w p (curDirtyFlag this) q"
      have qn: "q \<noteq> - 1" using False by (simp add: q_def)
      have pin: "0 < pinCnt w p" and fl: "faults w = []"
        using pos by (simp_all add: positioned_def p_def)
      have ex: "pages w q \<noteq> None" using pgq by (auto simp: data_at_def split: option.splits)
      note tp = turn_page_props [OF fl pin ex, of "curDirtyFlag this"]
      have pos1: "positioned this1 w2"
        using tp(4,5) by (simp add: positioned_def this1_def w2_def)
      have pw2: "pages w2 = pages w0" using tp(3) pw by (simp add: w2_def)
      have mm1: "matchRec this1 = matchRec this"
        by (simp add: this1_def matchRec_curPage_fun)
      have es2: "es = page_entries pgq @ file_entries w0 qs"
        by (simp add: es0 ps file_entries_Cons [OF pgq0])
      note stp = step_next_page [OF pos p_def [symmetric] pg None q_def [symmetric] qn pgq,
          where outRid = outRid, folded this1_def w2_def]
      show ?thesis
      proof (cases "live_from pgq 0")
        case None
        have sn: "scanNext outRid this w = scanNext outRid this1 w2"
          by (rule scanNext_Again) (rule stp(1) [OF None])
        have "page_entries pgq = []"
          by (simp add: page_entries_from entries_from_None [OF None])
        then have es3: "es = file_entries w0 qs" by (simp add: es2)
        have ap: "at_pos w0 this1 w2 qs es"
        proof (rule at_pos_I [OF pos1 pw2])
          show "data_at w0 (curPageNo this1) = Some pgq" using pgq0 by (simp add: this1_def)
          show "walk w0 (nextPage pgq) n' = Some qs" by (rule wq)
          show "es = entries_from pgq (slotNo (curRec this1) + 1) @ file_entries w0 qs"
            by (simp add: es3 entries_from_no_live [OF None])
        qed
        have safe1: "\<forall>(rid, r)\<in>set es. matchRec this1 r \<noteq> None"
          using less.prems(2) mm1 by simp
        have "next_match w0 outRid this1 w2 es"
          by (rule less.hyps [OF _ ap safe1]) (simp add: ps)
        with sn mm1 show ?thesis by (rule next_match_same)
      next
        case (Some j)
        from entries_from_Some [OF Some] obtain r where
          r: "live pgq j" "slots pgq ! nat j = Some r"
          and ef: "entries_from pgq 0 =
                 (\<lparr>pageNo = pageNumber pgq, slotNo = j\<rparr>, r) # entries_from pgq (j + 1)"
          by blast
        define rid where "rid = \<lparr>pageNo = pageNumber pgq, slotNo = j\<rparr>"
        define this2 where "this2 = this1\<lparr>curRec := rid\<rparr>"
        define es1 where "es1 = entries_from pgq (j + 1) @ file_entries w0 qs"
        have es': "es = (rid, r) # es1"
          by (simp add: es2 page_entries_from ef es1_def rid_def)
        have st: "scanNext_step outRid this w =
           (case matchRec this r of
              None \<Rightarrow> Undefined
            | Some m \<Rightarrow> if m then Return OK rid this2 w2 else Again this2 w2)"
          unfolding rid_def this2_def by (rule stp(2) [OF Some r(2) r(1)])
        have mm: "matchRec this2 = matchRec this"
          by (simp add: this2_def matchRec_curRec_fun mm1)
        have ap: "at_pos w0 this2 w2 qs es1"
        proof (rule at_pos_I)
          show "positioned this2 w2" using pos1 by (simp add: this2_def positioned_curRec)
          show "pages w2 = pages w0" by (rule pw2)
          show "data_at w0 (curPageNo this2) = Some pgq"
            using pgq0 by (simp add: this2_def this1_def)
          show "walk w0 (nextPage pgq) n' = Some qs" by (rule wq)
          show "es1 = entries_from pgq (slotNo (curRec this2) + 1) @ file_entries w0 qs"
            by (simp add: es1_def this2_def rid_def)
        qed
        from less.prems(2) es' have "matchRec this r \<noteq> None" by simp
        then obtain m where m: "matchRec this r = Some m" by (cases "matchRec this r") simp_all
        show ?thesis
        proof (cases m)
          case True
          have "matchRec this r = Some True" using m True by simp
          moreover have "scanNext outRid this w = Some (OK, rid, this2, w2)"
            by (rule scanNext_Return) (simp add: st m True)
          ultimately show ?thesis unfolding es' using ap mm by (rule next_match_found)
        next
          case False
          have sn: "scanNext outRid this w = scanNext outRid this2 w2"
            by (rule scanNext_Again) (simp add: st m False)
          have safe1: "\<forall>(rid, r)\<in>set es1. matchRec this2 r \<noteq> None"
            using less.prems(2) es' mm by simp
          have nm: "next_match w0 outRid this2 w2 es1"
            by (rule less.hyps [OF _ ap safe1]) (simp add: es' ps)
          have "matchRec this r = Some False" using m False by simp
          then show ?thesis unfolding es' using sn mm nm by (rule next_match_skip)
        qed
      qed
    qed
  qed
qed

lemma filter_dropWhile_Cons:
  "dropWhile (\<lambda>x. \<not> Q x) xs = y # ys \<Longrightarrow> filter Q xs = y # filter Q ys"
proof (induction xs)
  case Nil
  then show ?case by simp
next
  case (Cons x xs)
  show ?case
  proof (cases "Q x")
    case True
    with Cons.prems show ?thesis by simp
  next
    case False
    with Cons show ?thesis by simp
  qed
qed

lemma filter_dropWhile_Nil:
  "dropWhile (\<lambda>x. \<not> Q x) xs = [] \<Longrightarrow> filter Q xs = []"
  by (induction xs) (simp_all split: if_splits)

lemma match_pred:
  "(\<lambda>(rid, r). matchRec this r \<noteq> Some True) =
   (\<lambda>x. \<not> (case x of (rid, r) \<Rightarrow> matchRec this r = Some True))"
  by (simp add: fun_eq_iff split: prod.splits)

lemma scan_to_end_complete:
  assumes "at_pos w0 this w ps es" and "\<forall>(rid, r)\<in>set es. matchRec this r \<noteq> None"
  shows "\<exists>m. scan_to_end m outRid this w =
           Some (map fst (filter (\<lambda>(rid, r). matchRec this r = Some True) es), FILEEOF)"
  using assms
proof (induction "length es" arbitrary: this w ps es outRid rule: less_induct)
  case less
  let ?Q = "\<lambda>(rid, r). matchRec this r = Some True"
  have nm: "next_match w0 outRid this w es"
    using less.prems by (rule scanNext_next_match)
  show ?case
  proof (cases "dropWhile (\<lambda>x. \<not> ?Q x) es")
    case Nil
    with nm obtain this1 w1 where
      "scanNext outRid this w = Some (FILEEOF, outRid, this1, w1)"
      unfolding next_match_def match_pred by auto
    then have "scan_to_end (Suc 0) outRid this w = Some ([], FILEEOF)" by simp
    moreover have "filter ?Q es = []" using Nil by (rule filter_dropWhile_Nil)
    ultimately have "scan_to_end (Suc 0) outRid this w = Some (map fst (filter ?Q es), FILEEOF)"
      by simp
    then show ?thesis by (rule exI)
  next
    case (Cons e es1)
    obtain rid r where e: "e = (rid, r)" by (cases e)
    from nm Cons e obtain this1 w1 ps1 where
      sn: "scanNext outRid this w = Some (OK, rid, this1, w1)"
      and ap: "at_pos w0 this1 w1 ps1 es1" and mm: "matchRec this1 = matchRec this"
      unfolding next_match_def match_pred by auto
    have "length (dropWhile (\<lambda>x. \<not> ?Q x) es) \<le> length es" by (rule length_dropWhile_le)
    then have len: "length es1 < length es" by (simp add: Cons)
    have sub: "set es1 \<subseteq> set es"
    proof
      fix x assume "x \<in> set es1"
      then have "x \<in> set (dropWhile (\<lambda>x. \<not> ?Q x) es)" by (simp add: Cons)
      then show "x \<in> set es" by (rule set_dropWhileD)
    qed
    have safe1: "\<forall>(rid, r)\<in>set es1. matchRec this1 r \<noteq> None"
    proof
      fix x assume "x \<in> set es1"
      then have "x \<in> set es" using sub by (rule subsetD [rotated])
      then have "case x of (rid, r) \<Rightarrow> matchRec this r \<noteq> None"
        by (rule less.prems(2) [THEN bspec])
      then show "case x of (rid, r) \<Rightarrow> matchRec this1 r \<noteq> None" by (simp add: mm)
    qed
    from less.hyps [OF len ap safe1, of rid] obtain m where
      m: "scan_to_end m rid this1 w1 =
            Some (map fst (filter (\<lambda>(rid, r). matchRec this1 r = Some True) es1), FILEEOF)"
      by (rule exE)
    have f: "filter ?Q es = (rid, r) # filter ?Q es1"
      using Cons unfolding e by (rule filter_dropWhile_Cons)
    have "scan_to_end (Suc m) outRid this w = Some (map fst (filter ?Q es), FILEEOF)"
      using sn m by (simp add: f mm)
    then show ?thesis by (rule exI)
  qed
qed

lemma HeapFileScan_ctor_opens:
  assumes ex: "fileExists w" and fl: "faults w = []" and al: "1 \<le> nAlloc w"
    and hd: "hdr_at w 1 = Some hdr"
    and fp: "firstPage hdr = - 1 \<or> pages w (firstPage hdr) \<noteq> None"
  shows "\<exists>this1 w1. HeapFileScan_ctor name this0 w = Some (OK, this1, w1) \<and>
           pages w1 = pages w \<and> faults w1 = [] \<and> headerPage this1 = Some 1 \<and>
           curRec this1 = NULLRID \<and>
           (if firstPage hdr = - 1 then curPage this1 = None
            else curPage this1 = Some (firstPage hdr) \<and> curPageNo this1 = firstPage hdr \<and>
                 0 < pinCnt w1 (firstPage hdr))"
proof -
  define w1 where "w1 = w\<lparr>openCnt := openCnt w + 1\<rparr>"
  define w2 where "w2 = w1\<lparr>pinCnt := (pinCnt w1)(1 := pinCnt w1 1 + 1)\<rparr>"
  define t2 where "t2 = this0\<lparr>headerPageNo := 1, headerPage := Some 1, hdrDirtyFlag := False\<rparr>"
  have o: "openFile w = (OK, w1)" using ex by (simp add: openFile_def w1_def)
  have g: "getFirstPage w1 = (OK, 1)" using al by (simp add: getFirstPage_def w1_def)
  have p1: "pages w1 1 \<noteq> None" using hdr_at_exists [OF hd] by (simp add: w1_def)
  have f1: "faults w1 = []" using fl by (simp add: w1_def)
  have r1: "readPage w1 1 = (OK, w2)"
    unfolding w2_def by (rule readPage_ok [OF f1 p1])
  have h2: "header t2 w2 = Some (1, hdr)"
    using hd by (simp add: header_def hdr_at_def t2_def w2_def w1_def)
  have f2: "faults w2 = []" using f1 by (simp add: w2_def)
  have pw2: "pages w2 = pages w" by (simp add: w2_def w1_def)
  show ?thesis
  proof (cases "firstPage hdr = - 1")
    case True
    have "HeapFileScan_ctor name this0 w =
            Some (OK, t2\<lparr>curPage := None, curPageNo := - 1, curDirtyFlag := False,
                        curRec := NULLRID, filter_s := None\<rparr>, w2)"
      using True
      by (simp add: HeapFileScan_ctor_def HeapFile_ctor_def o g r1 h2 Let_def
          t2_def [symmetric])
    with True pw2 f2 show ?thesis by (simp add: t2_def)
  next
    case False
    define q where "q = firstPage hdr"
    define w3 where "w3 = w2\<lparr>pinCnt := (pinCnt w2)(q := pinCnt w2 q + 1)\<rparr>"
    have pq: "pages w2 q \<noteq> None" using fp False by (simp add: pw2 q_def)
    have r2: "readPage w2 q = (OK, w3)"
      unfolding w3_def by (rule readPage_ok [OF f2 pq])
    have "HeapFileScan_ctor name this0 w =
            Some (OK, t2\<lparr>curPage := Some q, curPageNo := q, curDirtyFlag := False,
                        curRec := NULLRID, filter_s := None\<rparr>, w3)"
      using False
      by (simp add: HeapFileScan_ctor_def HeapFile_ctor_def o g r1 h2 Let_def
          t2_def [symmetric] q_def [symmetric] r2)
    moreover have "pages w3 = pages w" "faults w3 = []" "0 < pinCnt w3 q"
      using pw2 f2 by (simp_all add: w3_def)
    ultimately show ?thesis using False by (simp add: t2_def q_def)
  qed
qed

lemma startScan_keeps:
  assumes "startScan offset' length' type' filter' op' this = (st, this1)"
  shows "curPage this1 = curPage this" "curPageNo this1 = curPageNo this"
    "curRec this1 = curRec this" "headerPage this1 = headerPage this"
  using assms by (auto simp: startScan_def split: if_splits)

section \<open>Two scans at the same position\<close>

lemma more_same_filter: "HeapFile.more a = HeapFile.more b \<Longrightarrow> same_filter a b"
  by (cases a, cases b) (simp add: same_filter_def)

lemma more_marked:
  "HeapFile.more a = HeapFile.more b \<Longrightarrow>
   markedPageNo a = markedPageNo b \<and> markedRec a = markedRec b"
  by (cases a, cases b) simp

lemma same_filter_matchRec: "same_filter a b \<Longrightarrow> matchRec b r = matchRec a r"
  by (simp add: same_filter_def matchRec_def attr_diff_def
      cong: option.case_cong Datatype.case_cong if_cong)

lemma same_filter_upd:
  "same_filter a b \<Longrightarrow> same_filter (a\<lparr>curRec := x\<rparr>) (b\<lparr>curRec := y\<rparr>)"
  "same_filter a b \<Longrightarrow>
   same_filter (a\<lparr>curPage := c1, curPageNo := c2, curDirtyFlag := c3\<rparr>)
     (b\<lparr>curPage := d1, curPageNo := d2, curDirtyFlag := d3\<rparr>)"
  by (simp_all add: same_filter_def)

lemma same_filter_refl: "same_filter a a"
  by (simp add: same_filter_def)

lemma same_filter_sym: "same_filter a b \<Longrightarrow> same_filter b a"
  by (simp add: same_filter_def)

lemma same_pos_sym: "same_pos w0 this w this' w' \<Longrightarrow> same_pos w0 this' w' this w"
  by (simp add: same_pos_def same_filter_sym)

lemma sim_ctl_match:
  assumes "after w0 this this' t v t' v'" and "matchRec this' r = matchRec this r"
  shows "sim_ctl w0 this this'
           (case matchRec this r of None \<Rightarrow> Undefined
            | Some m \<Rightarrow> if m then Return OK rid t v else Again t v)
           (case matchRec this' r of None \<Rightarrow> Undefined
            | Some m \<Rightarrow> if m then Return OK rid t' v' else Again t' v')"
  using assms by (cases "matchRec this r") (simp_all add: sim_ctl_def)

lemma scanNext_step_sim:
  assumes sp: "same_pos w0 this w this' w'" and lc: "links_closed w0"
  shows "sim_ctl w0 this this' (scanNext_step outRid this w) (scanNext_step outRid this' w')"
proof -
  from sp have pos: "positioned this w" and pos': "positioned this' w'"
    and pw: "pages w = pages w0" and pw': "pages w' = pages w0"
    and cpn: "curPageNo this' = curPageNo this" and cr: "curRec this' = curRec this"
    and sf: "same_filter this this'"
    unfolding same_pos_def by blast+
  define p where "p = curPageNo this"
  have cur: "curPage this = Some p" using pos by (simp add: positioned_def p_def)
  have cur': "curPage this' = Some p" using pos' cpn by (simp add: positioned_def p_def)
  have mr: "matchRec this' r = matchRec this r" for r
    using sf by (rule same_filter_matchRec)
  show ?thesis
  proof (cases "data_at w0 p")
    case None
    have "scanNext_step outRid this w = Undefined"
      using cur None by (intro step_no_data) (simp_all add: data_at_pages [OF pw])
    moreover have "scanNext_step outRid this' w' = Undefined"
      using cur' None by (intro step_no_data) (simp_all add: data_at_pages [OF pw'])
    ultimately show ?thesis by (simp add: sim_ctl_def)
  next
    case (Some pg)
    have pg: "data_at w p = Some pg" using Some by (simp add: data_at_pages [OF pw])
    have pg': "data_at w' p = Some pg" using Some by (simp add: data_at_pages [OF pw'])
    show ?thesis
    proof (cases "live_from pg (slotNo (curRec this) + 1)")
      case (Some j)
      then have Some': "live_from pg (slotNo (curRec this') + 1) = Some j" by (simp add: cr)
      from entries_from_Some [OF Some] obtain r where
        r: "live pg j" "slots pg ! nat j = Some r" by blast
      let ?rid = "\<lparr>pageNo = pageNumber pg, slotNo = j\<rparr>"
      have af: "after w0 this this' (this\<lparr>curRec := ?rid\<rparr>) w (this'\<lparr>curRec := ?rid\<rparr>) w'"
        using pos pos' pw pw' cpn sf
        by (simp add: after_def same_pos_def positioned_curRec same_filter_upd)
      show ?thesis
        unfolding step_same_page [OF cur pg Some r(2) r(1)]
          step_same_page [OF cur' pg' Some' r(2) r(1)]
        using af mr by (rule sim_ctl_match)
    next
      case None
      then have None': "live_from pg (slotNo (curRec this') + 1) = None" by (simp add: cr)
      show ?thesis
      proof (cases "nextPage pg = - 1")
        case True
        have "after w0 this this' this w this' w'"
          using sp by (simp add: after_def)
        then show ?thesis
          unfolding step_eof [OF cur pg None True] step_eof [OF cur' pg' None' True]
          by (simp add: sim_ctl_def)
      next
        case False
        define q where "q = nextPage pg"
        have qn: "q \<noteq> - 1" using False by (simp add: q_def)
        from lc \<open>data_at w0 p = Some pg\<close> False obtain pgq where pgq0: "data_at w0 q = Some pgq"
          unfolding links_closed_def q_def by blast
        have pgq: "data_at w q = Some pgq" using pgq0 by (simp add: data_at_pages [OF pw])
        have pgq': "data_at w' q = Some pgq" using pgq0 by (simp add: data_at_pages [OF pw'])
        define t1 where "t1 = this\<lparr>curPage := Some q, curPageNo := q, curDirtyFlag := False\<rparr>"
        define t1' where
          "t1' = this'\<lparr>curPage := Some q, curPageNo := q, curDirtyFlag := False\<rparr>"
        define v2 where "v2 = turn_page w p (curDirtyFlag this) q"
        define v2' where "v2' = turn_page w' p (curDirtyFlag this') q"
        have ex: "pages w q \<noteq> None" using pgq by (auto simp: data_at_def split: option.splits)
        have ex': "pages w' q \<noteq> None"
          using pgq' by (auto simp: data_at_def split: option.splits)
        have pin: "0 < pinCnt w p" and fl: "faults w = []"
          using pos by (simp_all add: positioned_def p_def)
        have pin': "0 < pinCnt w' p" and fl': "faults w' = []"
          using pos' cpn by (simp_all add: positioned_def p_def)
        note tp = turn_page_props [OF fl pin ex, of "curDirtyFlag this"]
        note tp' = turn_page_props [OF fl' pin' ex', of "curDirtyFlag this'"]
        have sp1: "same_pos w0 t1 v2 t1' v2'"
          using tp(3,4,5) tp'(3,4,5) pw pw' cr sf
          by (simp add: same_pos_def positioned_def t1_def t1'_def v2_def v2'_def
              same_filter_upd)
        have m1: "HeapFile.more t1 = HeapFile.more this" "HeapFile.more t1' = HeapFile.more this'"
          by (simp_all add: t1_def t1'_def)
        note stp = step_next_page [OF pos p_def [symmetric] pg None q_def [symmetric] qn pgq,
            where outRid = outRid, folded t1_def v2_def]
        have cpn': "curPageNo this' = p" using cpn by (simp add: p_def)
        note stp' = step_next_page [OF pos' cpn' pg' None' q_def [symmetric] qn pgq',
            where outRid = outRid, folded t1'_def v2'_def]
        show ?thesis
        proof (cases "live_from pgq 0")
          case None
          have "after w0 this this' t1 v2 t1' v2'"
            using sp1 m1 by (simp add: after_def)
          then show ?thesis
            unfolding stp(1) [OF None] stp'(1) [OF None] by (simp add: sim_ctl_def)
        next
          case (Some j)
          from entries_from_Some [OF Some] obtain r where
            r: "live pgq j" "slots pgq ! nat j = Some r" by blast
          let ?rid = "\<lparr>pageNo = pageNumber pgq, slotNo = j\<rparr>"
          have af: "after w0 this this' (t1\<lparr>curRec := ?rid\<rparr>) v2 (t1'\<lparr>curRec := ?rid\<rparr>) v2'"
            using sp1 m1
            by (simp add: after_def same_pos_def positioned_curRec same_filter_upd)
          show ?thesis
            unfolding stp(2) [OF Some r(2) r(1)] stp'(2) [OF Some r(2) r(1)]
            using af mr by (rule sim_ctl_match)
        qed
      qed
    qed
  qed
qed

lemma after_trans:
  assumes "after w0 t1 t1' t v t' v'" and "HeapFile.more t1 = HeapFile.more this"
    and "HeapFile.more t1' = HeapFile.more this'"
  shows "after w0 this this' t v t' v'"
  using assms by (simp add: after_def)

lemma scanNext_sim_aux:
  assumes lc: "links_closed w0"
  shows "scanNext outRid this w = Some y \<Longrightarrow> same_pos w0 this w this' w' \<Longrightarrow>
         \<exists>t' v'. scanNext outRid this' w' = Some (fst y, fst (snd y), t', v') \<and>
                 after w0 this this' (fst (snd (snd y))) (snd (snd (snd y))) t' v'"
proof (induction arbitrary: this' w'
    rule: scanNext.raw_induct [rotated -1, consumes 1, case_names 1])
  case (1 scanNext' outRid this w y)
  note sim = scanNext_step_sim [OF "1.prems" lc, of outRid]
  show ?case
  proof (cases "scanNext_step outRid this w")
    case Undefined
    with "1.hyps" show ?thesis by simp
  next
    case (Return st rid t v)
    with "1.hyps" have y: "y = (st, rid, t, v)" by simp
    from sim Return obtain t' v' where
      s': "scanNext_step outRid this' w' = Return st rid t' v'"
      and af: "after w0 this this' t v t' v'"
      unfolding sim_ctl_def by auto
    have "scanNext outRid this' w' = Some (st, rid, t', v')"
      using s' by (rule scanNext_Return)
    with af show ?thesis unfolding y by simp
  next
    case (Again t1 v1)
    with "1.hyps" have r: "scanNext' outRid t1 v1 = Some y" by simp
    from sim Again obtain t1' v1' where
      s': "scanNext_step outRid this' w' = Again t1' v1'"
      and af: "after w0 this this' t1 v1 t1' v1'"
      unfolding sim_ctl_def by auto
    from af have sp1: "same_pos w0 t1 v1 t1' v1'"
      and m: "HeapFile.more t1 = HeapFile.more this" "HeapFile.more t1' = HeapFile.more this'"
      by (simp_all add: after_def)
    from "1.IH" [OF r sp1] obtain t' v' where
      sn: "scanNext outRid t1' v1' = Some (fst y, fst (snd y), t', v')"
      and af1: "after w0 t1 t1' (fst (snd (snd y))) (snd (snd (snd y))) t' v'"
      by blast
    have "scanNext outRid this' w' = scanNext outRid t1' v1'"
      using s' by (rule scanNext_Again)
    with sn have "scanNext outRid this' w' = Some (fst y, fst (snd y), t', v')" by simp
    moreover have "after w0 this this' (fst (snd (snd y))) (snd (snd (snd y))) t' v'"
      using af1 m by (rule after_trans)
    ultimately show ?thesis by blast
  qed
qed

lemma scanNext_sim:
  assumes "scanNext outRid this w = Some (st, rid, t, v)" and "same_pos w0 this w this' w'"
    and "links_closed w0"
  shows "\<exists>t' v'. scanNext outRid this' w' = Some (st, rid, t', v') \<and>
                 after w0 this this' t v t' v'"
  using scanNext_sim_aux [OF assms(3) assms(1) assms(2)] by simp

lemma scanNext_keeps:
  assumes "scanNext outRid this w = Some (st, rid, t, v)"
    and "positioned this w" and "pages w = pages w0" and "links_closed w0"
  shows "positioned t v \<and> pages v = pages w0 \<and> HeapFile.more t = HeapFile.more this"
proof -
  have "same_pos w0 this w this w"
    using assms(2,3) by (simp add: same_pos_def same_filter_refl)
  from scanNext_sim [OF assms(1) this assms(4)] show ?thesis
    by (auto simp: after_def same_pos_def)
qed

lemma scan_calls_keeps:
  assumes "links_closed w0"
  shows "scan_calls rs this w = Some (t, v) \<Longrightarrow> positioned this w \<Longrightarrow> pages w = pages w0 \<Longrightarrow>
         positioned t v \<and> pages v = pages w0 \<and> HeapFile.more t = HeapFile.more this"
proof (induction rs arbitrary: this w)
  case Nil
  then show ?case by simp
next
  case (Cons outRid rs)
  from Cons.prems(1) obtain st rid t1 v1 where
    s: "scanNext outRid this w = Some (st, rid, t1, v1)"
    and c: "scan_calls rs t1 v1 = Some (t, v)"
    by (cases "scanNext outRid this w") auto
  from scanNext_keeps [OF s Cons.prems(2,3) assms]
  have k: "positioned t1 v1" "pages v1 = pages w0" "HeapFile.more t1 = HeapFile.more this"
    by simp_all
  from Cons.IH [OF c k(1,2)] k(3) show ?case by simp
qed

lemma scanNext_same_result:
  assumes sp: "same_pos w0 this w this' w'" and lc: "links_closed w0"
  shows "map_option (\<lambda>(st, rid, t, v). (st, rid)) (scanNext outRid this' w') =
         map_option (\<lambda>(st, rid, t, v). (st, rid)) (scanNext outRid this w)"
proof (cases "scanNext outRid this w")
  case (Some y)
  obtain st rid t v where y: "y = (st, rid, t, v)" by (cases y)
  from scanNext_sim [OF Some [unfolded y] sp lc] obtain t' v' where
    "scanNext outRid this' w' = Some (st, rid, t', v')" by blast
  with Some y show ?thesis by simp
next
  case None
  show ?thesis
  proof (cases "scanNext outRid this' w'")
    case None': None
    with None show ?thesis by simp
  next
    case (Some y)
    obtain st rid t v where y: "y = (st, rid, t, v)" by (cases y)
    from scanNext_sim [OF Some [unfolded y] same_pos_sym [OF sp] lc] obtain t' v' where
      "scanNext outRid this w = Some (st, rid, t', v')" by blast
    with None show ?thesis by simp
  qed
qed

lemma resetScan_restores:
  assumes pos: "positioned t v" and ex: "pages v (markedPageNo t) \<noteq> None"
  shows "\<exists>t2 v2. resetScan t v = (OK, t2, v2) \<and> positioned t2 v2 \<and> pages v2 = pages v \<and>
           curPageNo t2 = markedPageNo t \<and> curRec t2 = markedRec t \<and>
           curPage t2 = Some (markedPageNo t) \<and> same_filter t t2"
proof (cases "markedPageNo t = curPageNo t")
  case True
  have "resetScan t v = (OK, t\<lparr>curRec := markedRec t\<rparr>, v)"
    using True by (simp add: resetScan_def)
  moreover have "positioned (t\<lparr>curRec := markedRec t\<rparr>) v"
    using pos by (simp add: positioned_curRec)
  moreover have "curPage t = Some (markedPageNo t)"
    using pos True by (simp add: positioned_def)
  ultimately show ?thesis using True by (simp add: same_filter_def)
next
  case False
  define m where "m = markedPageNo t"
  define t2 where "t2 = t\<lparr>curPageNo := m, curRec := markedRec t, curPage := Some m,
                           curDirtyFlag := False\<rparr>"
  define v1 where "v1 = snd (unPinPage v (curPageNo t) (curDirtyFlag t))"
  define v2 where "v2 = turn_page v (curPageNo t) (curDirtyFlag t) m"
  have cur: "curPage t \<noteq> None" and pin: "0 < pinCnt v (curPageNo t)" and fl: "faults v = []"
    using pos by (simp_all add: positioned_def)
  note tp = turn_page_props [OF fl pin ex [folded m_def], of "curDirtyFlag t"]
  have u: "unPinPage v (curPageNo t) (curDirtyFlag t) = (OK, v1)"
    using tp(1) by (simp add: v1_def)
  have rd: "readPage v1 m = (OK, v2)"
    using tp(2) by (simp add: v1_def v2_def)
  have "resetScan t v = (OK, t2, v2)"
    using False cur
    by (simp add: resetScan_def Let_def m_def [symmetric] u rd t2_def)
  moreover have "positioned t2 v2"
    using tp(4,5) by (simp add: positioned_def t2_def v2_def)
  moreover have "pages v2 = pages v" using tp(3) by (simp add: v2_def)
  ultimately show ?thesis by (simp add: t2_def m_def same_filter_def)
qed

section \<open>\<^verbatim>\<open>matchRec\<close> within the range of \<^verbatim>\<open>int\<close>\<close>

lemma sint_add_in_range:
  fixes a b :: int32
  assumes "- 2147483648 \<le> sint a + sint b" and "sint a + sint b \<le> 2147483647"
  shows "sint (a + b) = sint a + sint b"
  unfolding sint_word_add using assms by (simp add: signed_take_bit_int_eq_self)

lemma sint_diff_in_range:
  fixes a b :: int32
  assumes "- 2147483648 \<le> sint a - sint b" and "sint a - sint b \<le> 2147483647"
  shows "sint (a - b) = sint a - sint b"
  unfolding sint_word_diff using assms by (simp add: signed_take_bit_int_eq_self)

lemma sint_end_of_attr:
  fixes a b :: int32
  assumes "0 \<le> sint a" and "1 \<le> sint b" and "sint a + sint b \<le> 2147483647"
  shows "sint (a + b - 1) = sint a + sint b - 1"
proof -
  have s: "sint (a + b) = sint a + sint b"
    using assms by (intro sint_add_in_range) simp_all
  have "sint (a + b - 1) = sint (a + b) - sint (1 :: int32)"
    using assms by (intro sint_diff_in_range) (simp_all add: s)
  then show ?thesis by (simp add: s)
qed

text \<open>Where the sum of offset and length does not overflow, a record that ends before
  the attribute does not match.\<close>

lemma matchRec_beyond_record:
  assumes "filter_s this = Some flt"
    and "0 \<le> sint (offset this)" and "1 \<le> sint (length_s this)"
    and "sint (offset this) + sint (length_s this) \<le> 2147483647"
    and "length_r rec < sint (offset this) + sint (length_s this)"
  shows "matchRec this rec = Some False"
  using assms by (simp add: matchRec_def sint_end_of_attr)

text \<open>Where the subtraction of the two integers does not overflow, the operator is
  applied to their exact difference.\<close>

lemma matchRec_INTEGER_in_range:
  assumes flt: "filter_s this = Some flt" and ty: "type_s this = INTEGER"
    and len: "length_s this = 4" and off: "0 \<le> sint (offset this)"
    and fits: "sint (offset this) + 4 \<le> length_r rec" and wf: "rec_wf rec"
    and small: "length_r rec \<le> 2147483647"
    and fl: "4 \<le> length flt"
    and a: "a = le32 (take 4 (drop (nat (sint (offset this))) (data rec)))"
    and f: "f = le32 (take 4 flt)"
    and lo: "- 2147483648 \<le> sint a - sint f" and hi: "sint a - sint f \<le> 2147483647"
  shows "matchRec this rec = Some (op_holds (op_s this) (diff_of_int (sint a - sint f)))"
proof -
  have "sint (offset this + 4 - 1) = sint (offset this) + sint (4 :: int32) - 1"
    using off fits small by (intro sint_end_of_attr) simp_all
  then have e: "sint (offset this + length_s this - 1) = sint (offset this) + 3"
    by (simp add: len)
  have ra: "read_bytes (data rec) (sint (offset this)) 4 =
              Some (take 4 (drop (nat (sint (offset this))) (data rec)))"
    using off fits wf by (simp add: read_bytes_def rec_wf_def)
  have rf: "read_bytes flt 0 4 = Some (take 4 flt)"
    using fl by (simp add: read_bytes_def)
  have d: "attr_diff this flt rec = Some (diff_of_int (sint a - sint f))"
    using lo hi by (simp add: attr_diff_def ty len ra rf a f sint_diff_in_range)
  show ?thesis
    using fits by (simp add: matchRec_def flt e d)
qed

section \<open>The claims\<close>

text \<open>
  C1. The claim: every \<^verbatim>\<open>insertRecord\<close> inserts into the tail page of the chain, and no
  call inserts into or re-links a page that is not the tail. The code does not keep it:
  the constructor pins \<^verbatim>\<open>firstPage\<close> as the current page, so that \<^verbatim>\<open>insertRecord\<close>
  finds a current page and never turns to \<^verbatim>\<open>lastPage\<close>. On the file of two pages, a
  record of 100 bytes goes to page 2, the first page, although \<^verbatim>\<open>lastPage\<close> is 3; and a
  record of 600 bytes, for which page 2 has no room, makes the call link the new page 4
  behind page 2, whose link to page 3 is lost.
\<close>

theorem insertRecord_not_on_tail_page:
  "map_option (\<lambda>(st, rid, this, w). (st, pageNo rid, map_option lastPage (hdr_at w 1)))
     (open_insert file2 (mk_rec 100 3)) = Some (OK, 2, Some 3) \<and>
   map_option nextPage (data_at file2 2) = Some 3 \<and>
   map_option (\<lambda>(st, rid, this, w). (st, pageNo rid, map_option nextPage (data_at w 2)))
     (open_insert file2 (mk_rec 600 3)) = Some (OK, 4, Some 4)"
  by (simp add: example_defs insert_defs world_defs page_defs)

text \<open>
  C2. The claim: after every successful operation the header agrees with the chain
  (\<open>consistent\<close>; the chain of \<^verbatim>\<open>pageCnt\<close> pages from \<^verbatim>\<open>firstPage\<close> ends in
  \<^verbatim>\<open>lastPage\<close>, and \<^verbatim>\<open>recCnt\<close> counts its records). The code does not keep it: on
  the consistent file of two pages, the insertion of a record of 600 bytes through a new
  insert scan returns \<open>OK\<close> and leaves a header of three pages and three records over a
  chain of two pages and two records.
\<close>

theorem insertRecord_breaks_header:
  "consistent file2 1 \<and>
   map_option (\<lambda>(st, rid, this, w). (st, consistent w 1, map_option pageCnt (hdr_at w 1),
                 map_option recCnt (hdr_at w 1), walk w 2 3, map (live_count w) [2, 4]))
     (open_insert file2 (mk_rec 600 3)) = Some (OK, False, Some 3, Some 3, Some [2, 4], [1, 1])"
  by (simp add: consistent_def live_count_def example_defs insert_defs world_defs page_defs
      walk_numeral)

text \<open>
  C3. A filtered scan on a newly opened \<^verbatim>\<open>HeapFileScan\<close> returns the live records
  that match the filter, each once, in the order of the page chain, the first record of
  the first page included. The file exists, its header is page 1, the chain from
  \<^verbatim>\<open>firstPage\<close> is \<open>ps\<close> and ends with the link -1, and the pool reports no
  failure. Then the constructor returns \<open>OK\<close>; and when \<^verbatim>\<open>startScan\<close> accepts the
  filter and \<^verbatim>\<open>matchRec\<close> is defined on every record of the file, the calls of
  \<^verbatim>\<open>scanNext\<close> return the identifiers of the matching records of \<open>file_entries\<close>,
  in that order, and then \<open>FILEEOF\<close> (\<open>NORECORDS\<close> at once when the file has no data
  page).
\<close>

theorem filtered_scan_enumerates:
  assumes ex: "fileExists w" and fl: "faults w = []" and al: "1 \<le> nAlloc w"
    and hd: "hdr_at w 1 = Some hdr"
    and wk: "walk w (firstPage hdr) n = Some ps"
  shows "\<exists>this1 w1.
           HeapFileScan_ctor name this0 w = Some (OK, this1, w1) \<and>
           (\<forall>this2. startScan offset' length' type' filter' op' this1 = (OK, this2) \<longrightarrow>
              (\<forall>(rid, r)\<in>set (file_entries w ps). matchRec this2 r \<noteq> None) \<longrightarrow>
              (\<exists>m. scan_to_end m outRid this2 w1 =
                 Some (map fst (filter (\<lambda>(rid, r). matchRec this2 r = Some True)
                                  (file_entries w ps)),
                       if ps = [] then NORECORDS else FILEEOF)))"
proof -
  have fp: "firstPage hdr = - 1 \<or> pages w (firstPage hdr) \<noteq> None"
  proof (cases "firstPage hdr = - 1")
    case True
    then show ?thesis by simp
  next
    case False
    from walk_next [OF wk False] obtain pg where "data_at w (firstPage hdr) = Some pg"
      by blast
    then show ?thesis by (auto simp: data_at_def split: option.splits)
  qed
  from HeapFileScan_ctor_opens [OF ex fl al hd fp, of name this0]
  obtain this1 w1 where
    c: "HeapFileScan_ctor name this0 w = Some (OK, this1, w1)"
    and pw: "pages w1 = pages w" and f1: "faults w1 = []"
    and hp: "headerPage this1 = Some 1" and cr: "curRec this1 = NULLRID"
    and cp: "if firstPage hdr = - 1 then curPage this1 = None
            else curPage this1 = Some (firstPage hdr) \<and> curPageNo this1 = firstPage hdr \<and>
                 0 < pinCnt w1 (firstPage hdr)"
    by blast
  have "\<exists>m. scan_to_end m outRid this2 w1 =
                 Some (map fst (filter (\<lambda>(rid, r). matchRec this2 r = Some True)
                                  (file_entries w ps)),
                       if ps = [] then NORECORDS else FILEEOF)"
    if s: "startScan offset' length' type' filter' op' this1 = (OK, this2)"
      and safe: "\<forall>(rid, r)\<in>set (file_entries w ps). matchRec this2 r \<noteq> None"
    for this2
  proof (cases "firstPage hdr = - 1")
    case True
    with wk have ps: "ps = []" by (simp add: walk_end)
    have "curPage this2 = None" using cp True startScan_keeps(1) [OF s] by simp
    moreover have "header this2 w1 = Some (1, hdr)"
      using hd hp startScan_keeps(4) [OF s] pw by (simp add: header_def hdr_at_def)
    ultimately have "scanNext outRid this2 w1 = Some (NORECORDS, outRid, this2, w1)"
      using True by (subst scanNext.simps) (simp add: scanNext_step_def scan_begin_def)
    then have "scan_to_end (Suc 0) outRid this2 w1 = Some ([], NORECORDS)" by simp
    then have "scan_to_end (Suc 0) outRid this2 w1 =
                 Some (map fst (filter (\<lambda>(rid, r). matchRec this2 r = Some True)
                                  (file_entries w ps)),
                       if ps = [] then NORECORDS else FILEEOF)"
      by (simp add: ps file_entries_Nil)
    then show ?thesis by (rule exI)
  next
    case False
    from walk_next [OF wk False] obtain pg n' qs where
      pg: "data_at w (firstPage hdr) = Some pg" and wq: "walk w (nextPage pg) n' = Some qs"
      and ps: "ps = firstPage hdr # qs"
      by blast
    have k: "curPage this2 = Some (firstPage hdr)" "curPageNo this2 = firstPage hdr"
      "curRec this2 = NULLRID" "0 < pinCnt w1 (firstPage hdr)"
      using cp cr False startScan_keeps [OF s] by simp_all
    have ap: "at_pos w this2 w1 qs (file_entries w ps)"
    proof (rule at_pos_I)
      show "positioned this2 w1" using k f1 by (simp add: positioned_def)
      show "pages w1 = pages w" by (rule pw)
      show "data_at w (curPageNo this2) = Some pg" using pg k by simp
      show "walk w (nextPage pg) n' = Some qs" by (rule wq)
      show "file_entries w ps = entries_from pg (slotNo (curRec this2) + 1) @ file_entries w qs"
        using k(3) by (simp add: ps file_entries_Cons [OF pg] page_entries_from NULLRID_def)
    qed
    from scan_to_end_complete [OF ap safe, of outRid] show ?thesis by (simp add: ps)
  qed
  with c show ?thesis by blast
qed

theorem filtered_scan_enumerates_witness:
  "\<exists>this1 w1 this2.
     HeapFileScan_ctor ''t'' fresh_HeapFileScan file3 = Some (OK, this1, w1) \<and>
     startScan 0 1 STRING (Some [2]) EQ this1 = (OK, this2) \<and>
     (\<exists>m. scan_to_end m NULLRID this2 w1 =
        Some ([\<lparr>pageNo = 2, slotNo = 2\<rparr>, \<lparr>pageNo = 4, slotNo = 0\<rparr>], FILEEOF))"
proof -
  let ?hdr = "\<lparr>fileName = ''t'', firstPage = 2, lastPage = 4, pageCnt = 3, recCnt = 3\<rparr>"
  have h: "fileExists file3" "faults file3 = []" "1 \<le> nAlloc file3"
    by (simp_all add: file3_def)
  have hd: "hdr_at file3 1 = Some ?hdr" by (simp add: hdr_at_def file3_def)
  have wk: "walk file3 (firstPage ?hdr) 3 = Some [2, 3, 4]"
    by (simp add: walk_numeral data_at_def file3_def)
  from filtered_scan_enumerates [OF h hd wk, of "''t''" fresh_HeapFileScan 0 1 STRING
      "Some [2]" EQ NULLRID]
  obtain this1 w1 where
    c: "HeapFileScan_ctor ''t'' fresh_HeapFileScan file3 = Some (OK, this1, w1)"
    and imp: "\<And>this2. startScan 0 1 STRING (Some [2]) EQ this1 = (OK, this2) \<Longrightarrow>
              (\<forall>(rid, r)\<in>set (file_entries file3 [2, 3, 4]). matchRec this2 r \<noteq> None) \<Longrightarrow>
              (\<exists>m. scan_to_end m NULLRID this2 w1 =
                 Some (map fst (filter (\<lambda>(rid, r). matchRec this2 r = Some True)
                                  (file_entries file3 [2, 3, 4])),
                       if [2, 3, 4 :: int] = [] then NORECORDS else FILEEOF))"
    by blast
  define this2 where
    "this2 = this1\<lparr>offset := 0, length_s := 1, type_s := STRING, filter_s := Some [2],
                    op_s := EQ\<rparr>"
  have s: "startScan 0 1 STRING (Some [2]) EQ this1 = (OK, this2)"
    by (simp add: startScan_def this2_def)
  have fe: "file_entries file3 [2, 3, 4] =
      [(\<lparr>pageNo = 2, slotNo = 0\<rparr>, \<lparr>data = [1], length_r = 1\<rparr>),
       (\<lparr>pageNo = 2, slotNo = 2\<rparr>, \<lparr>data = [2], length_r = 1\<rparr>),
       (\<lparr>pageNo = 4, slotNo = 0\<rparr>, \<lparr>data = [2], length_r = 1\<rparr>)]"
    by (simp add: file_entries_def page_entries_def data_at_def file3_def)
  have m: "matchRec this2 \<lparr>data = [1], length_r = 1\<rparr> = Some False"
    "matchRec this2 \<lparr>data = [2], length_r = 1\<rparr> = Some True"
    by (simp_all add: this2_def matchRec_def attr_diff_def diff_of_int_def)
  from imp [OF s] m obtain k where
    "scan_to_end k NULLRID this2 w1 =
       Some ([\<lparr>pageNo = 2, slotNo = 2\<rparr>, \<lparr>pageNo = 4, slotNo = 0\<rparr>], FILEEOF)"
    by (auto simp: fe)
  with c s show ?thesis by blast
qed

text \<open>
  C4. The claim: the dirty flag passed to \<^verbatim>\<open>unPinPage\<close> is the disjunction of the writes
  made to the page since it was pinned, also for the previous tail page when the chain
  is extended. The code does not keep it: \<^verbatim>\<open>setNextPage\<close> writes the link of the
  current page and the page is unpinned with \<^verbatim>\<open>curDirtyFlag\<close>, which nothing has set.
  On the file of one full page the link of page 2 changes from -1 to 3, the page is
  unpinned, and its frame is still clean.
\<close>

theorem insertRecord_link_not_dirty:
  "map_option nextPage (data_at file1 2) = Some (- 1) \<and>
   map_option (\<lambda>(st, rid, this, w).
        (st, pageNo rid, map_option nextPage (data_at w 2), pinCnt w 2, dirty w 2))
     (open_insert file1 (mk_rec 600 2)) = Some (OK, 3, Some 3, 0, False)"
  by (simp add: example_defs insert_defs world_defs page_defs)

text \<open>
  C5. The claim: on every path, also the early returns, each page the layer pinned is
  unpinned before the operation returns. The code does not keep it: when the second
  \<^verbatim>\<open>allocPage\<close> of \<^verbatim>\<open>createHeapFile\<close> fails, the function returns the status with
  the header page 1 still pinned (and the file still open).
\<close>

theorem createHeapFile_leaves_pin:
  "map_option (\<lambda>(st, w). (st, pinCnt w 1, openCnt w))
     (createHeapFile ''t'' (no_file\<lparr>faults := [OK, BUFFEREXCEEDED]\<rparr>))
   = Some (BUFFEREXCEEDED, 1, 1)"
  by (simp add: createHeapFile_def example_defs world_defs page_defs)

text \<open>
  C6. \<^verbatim>\<open>markScan\<close>, then any number of calls of \<^verbatim>\<open>scanNext\<close>, then
  \<^verbatim>\<open>resetScan\<close>, for a scan position with a current page: the current page of the
  scan is pinned, the links of the data pages of the file lead to data pages, and the pool
  reports no failure. Then \<^verbatim>\<open>resetScan\<close> returns \<open>OK\<close>, \<^verbatim>\<open>curRec\<close>,
  \<^verbatim>\<open>curPageNo\<close> and \<^verbatim>\<open>curPage\<close> are what they were at the mark, and the next
  \<^verbatim>\<open>scanNext\<close> returns the status and the record identifier it would have returned
  at the mark (or does not return, if it would not have).
\<close>

theorem markScan_resetScan_restores:
  assumes pos: "positioned this w" and ex: "pages w (curPageNo this) \<noteq> None"
    and lc: "links_closed w"
    and run: "scan_calls rs (snd (markScan this)) w = Some (this1, w1)"
  shows "\<exists>this2 w2. resetScan this1 w1 = (OK, this2, w2) \<and>
           curRec this2 = curRec this \<and> curPageNo this2 = curPageNo this \<and>
           curPage this2 = curPage this \<and>
           map_option (\<lambda>(st, rid, t, v). (st, rid)) (scanNext outRid this2 w2) =
           map_option (\<lambda>(st, rid, t, v). (st, rid)) (scanNext outRid this w)"
proof -
  define thisM where "thisM = snd (markScan this)"
  have tm: "thisM = this\<lparr>markedPageNo := curPageNo this, markedRec := curRec this\<rparr>"
    by (simp add: thisM_def markScan_def)
  have posM: "positioned thisM w" using pos by (simp add: tm positioned_def)
  from scan_calls_keeps [OF lc run [folded thisM_def] posM refl]
  have k: "positioned this1 w1" "pages w1 = pages w" "HeapFile.more this1 = HeapFile.more thisM"
    by simp_all
  from more_marked [OF k(3)] have mk: "markedPageNo this1 = curPageNo this"
    "markedRec this1 = curRec this"
    by (simp_all add: tm)
  have ex1: "pages w1 (markedPageNo this1) \<noteq> None" using ex by (simp add: mk k(2))
  from resetScan_restores [OF k(1) ex1] obtain this2 w2 where
    r: "resetScan this1 w1 = (OK, this2, w2)" and p2: "positioned this2 w2"
    and pw2: "pages w2 = pages w1" and c2: "curPageNo this2 = markedPageNo this1"
    "curRec this2 = markedRec this1" "curPage this2 = Some (markedPageNo this1)"
    and sf2: "same_filter this1 this2"
    by blast
  have sfM: "same_filter this thisM" by (simp add: tm same_filter_def)
  have sf1: "same_filter thisM this1"
    using more_same_filter [OF k(3)] by (rule same_filter_sym)
  have sf: "same_filter this this2"
    using sfM sf1 sf2 by (simp add: same_filter_def)
  have sp: "same_pos w this w this2 w2"
    using pos p2 pw2 k(2) c2 mk sf by (simp add: same_pos_def)
  have cp: "curPage this2 = curPage this"
    using c2(3) mk(1) pos by (simp add: positioned_def)
  from r c2 mk cp scanNext_same_result [OF sp lc, of outRid]
  show ?thesis by simp
qed

theorem markScan_resetScan_restores_witness:
  "\<exists>this1 w1 this2 w2.
     scan_calls [NULLRID, NULLRID] (snd (markScan (scan_at 2 \<lparr>pageNo = 2, slotNo = 0\<rparr>)))
       (pinned file3 2) = Some (this1, w1) \<and>
     curPageNo this1 = 4 \<and>
     resetScan this1 w1 = (OK, this2, w2) \<and>
     curRec this2 = \<lparr>pageNo = 2, slotNo = 0\<rparr> \<and> curPageNo this2 = 2 \<and>
     map_option (\<lambda>(st, rid, t, v). (st, rid)) (scanNext NULLRID this2 w2) =
       Some (OK, \<lparr>pageNo = 2, slotNo = 2\<rparr>)"
proof -
  let ?S = "scan_at 2 \<lparr>pageNo = 2, slotNo = 0\<rparr>"
  let ?W = "pinned file3 2"
  have pos: "positioned ?S ?W"
    by (simp add: positioned_def example_defs file3_def)
  have ex: "pages ?W (curPageNo ?S) \<noteq> None"
    by (simp add: example_defs file3_def)
  have lc: "links_closed ?W"
    by (auto simp: links_closed_def data_at_def example_defs file3_def split: if_splits)
  have run: "\<exists>this1 w1. scan_calls [NULLRID, NULLRID] (snd (markScan ?S)) ?W = Some (this1, w1) \<and>
               curPageNo this1 = 4"
    by (simp add: scanNext.simps scan_defs world_defs page_defs example_defs file3_def)
  then obtain this1 w1 where
    r: "scan_calls [NULLRID, NULLRID] (snd (markScan ?S)) ?W = Some (this1, w1)"
    and c: "curPageNo this1 = 4"
    by blast
  have orig: "map_option (\<lambda>(st, rid, t, v). (st, rid)) (scanNext NULLRID ?S ?W) =
       Some (OK, \<lparr>pageNo = 2, slotNo = 2\<rparr>)"
    by (simp add: scanNext.simps scan_defs world_defs page_defs example_defs file3_def)
  from markScan_resetScan_restores [OF pos ex lc r, of NULLRID] obtain this2 w2 where
    rs: "resetScan this1 w1 = (OK, this2, w2)" and cr2: "curRec this2 = curRec ?S"
    and cp2: "curPageNo this2 = curPageNo ?S"
    and eq: "map_option (\<lambda>(st, rid, t, v). (st, rid)) (scanNext NULLRID this2 w2) =
     map_option (\<lambda>(st, rid, t, v). (st, rid)) (scanNext NULLRID ?S ?W)"
    by blast
  have cr: "curRec this2 = \<lparr>pageNo = 2, slotNo = 0\<rparr>" using cr2 by (simp add: scan_at_def)
  have cp: "curPageNo this2 = 2" using cp2 by (simp add: scan_at_def)
  have fin: "map_option (\<lambda>(st, rid, t, v). (st, rid)) (scanNext NULLRID this2 w2) =
       Some (OK, \<lparr>pageNo = 2, slotNo = 2\<rparr>)"
    by (simp only: eq orig)
  show ?thesis
    by (intro exI conjI) (rule r c rs cr cp fin)+
qed

text \<open>
  C6, as it is stated for every scan position, fails for a position without a current
  page. After \<^verbatim>\<open>endScan\<close> the scan has \<^verbatim>\<open>curPage = NULL\<close> and
  \<^verbatim>\<open>curPageNo = 0\<close>; \<^verbatim>\<open>scanNext\<close> starts again from the first page. When such a scan
  is marked and has moved on, \<^verbatim>\<open>resetScan\<close> reads the page 0 of the mark, which is
  no page of the file: it returns an error, \<^verbatim>\<open>curPage\<close> still points to the page it
  has unpinned, and the next \<^verbatim>\<open>scanNext\<close> fails where the call at the mark returned a
  record.
\<close>

theorem resetScan_without_current_page:
  "fst ended_scan = OK \<and> curPage (fst (snd ended_scan)) = None \<and>
   mark_then_next = Some (OK, \<lparr>pageNo = 2, slotNo = 2\<rparr>) \<and>
   mark_next_reset_then_next = Some (BADPAGENO, Some 2, Some (PAGENOTPINNED, NULLRID))"
  by (simp add: ended_scan_def mark_then_next_def mark_next_reset_then_next_def status_rid_def
      endScan_def scanNext.simps scan_defs world_defs page_defs example_defs)

text \<open>
  C7. \<^verbatim>\<open>scanNext\<close> on a heap file without data pages (\<^verbatim>\<open>firstPage\<close> is -1 and no
  page is current) returns \<open>NORECORDS\<close>; \<^verbatim>\<open>scanNext\<close> on the last page of the chain
  (its link is -1), when no occupied slot is left behind the current record, returns
  \<open>FILEEOF\<close>. In both cases the scan and the pool are left as they were.
\<close>

theorem scanNext_NORECORDS_FILEEOF:
  "(curPage this = None \<longrightarrow> header this w = Some (hp, hdr) \<longrightarrow> firstPage hdr = - 1 \<longrightarrow>
      scanNext outRid this w = Some (NORECORDS, outRid, this, w)) \<and>
   (cur_data this' w' = Some (p, pg) \<longrightarrow> nextPage pg = - 1 \<longrightarrow>
      (\<forall>i>slotNo (curRec this'). \<not> live pg i) \<longrightarrow>
      scanNext outRid' this' w' = Some (FILEEOF, outRid', this', w'))"
proof (intro conjI impI)
  assume "curPage this = None" "header this w = Some (hp, hdr)" "firstPage hdr = - 1"
  then show "scanNext outRid this w = Some (NORECORDS, outRid, this, w)"
    by (subst scanNext.simps) (simp add: scanNext_step_def scan_begin_def)
next
  assume c: "cur_data this' w' = Some (p, pg)" and n: "nextPage pg = - 1"
    and l: "\<forall>i>slotNo (curRec this'). \<not> live pg i"
  have "live_from pg (slotNo (curRec this') + 1) = None"
    using l by (simp add: live_from_None)
  moreover have "curPage this' = Some p"
    using c by (auto simp: cur_data_def split: option.splits)
  ultimately show "scanNext outRid' this' w' = Some (FILEEOF, outRid', this', w')"
    using c n
    by (subst scanNext.simps)
       (simp add: scanNext_step_def scan_begin_def scan_advance_def nextRecord_def
          getNextPage_def)
qed

theorem scanNext_NORECORDS_FILEEOF_witness:
  "scanNext NULLRID (scan_at 2 NULLRID\<lparr>curPage := None\<rparr>) (pinned file0 1)
     = Some (NORECORDS, NULLRID, scan_at 2 NULLRID\<lparr>curPage := None\<rparr>, pinned file0 1) \<and>
   scanNext NULLRID (scan_at 2 \<lparr>pageNo = 2, slotNo = 0\<rparr>) (pinned file1 2)
     = Some (FILEEOF, NULLRID, scan_at 2 \<lparr>pageNo = 2, slotNo = 0\<rparr>, pinned file1 2)"
proof -
  let ?hdr = "\<lparr>fileName = ''t'', firstPage = - 1, lastPage = - 1, pageCnt = 0, recCnt = 0\<rparr>"
  let ?pg = "\<lparr>pageNumber = 2, nextPage = - 1, slots = [Some (mk_rec 600 1)]\<rparr>"
  have a1: "curPage (scan_at 2 NULLRID\<lparr>curPage := None\<rparr>) = None"
    by (simp add: scan_at_def)
  have a2: "header (scan_at 2 NULLRID\<lparr>curPage := None\<rparr>) (pinned file0 1) = Some (1, ?hdr)"
    by (simp add: header_def hdr_at_def example_defs)
  have a3: "firstPage ?hdr = - 1" by simp
  have b1: "cur_data (scan_at 2 \<lparr>pageNo = 2, slotNo = 0\<rparr>) (pinned file1 2) = Some (2, ?pg)"
    by (simp add: cur_data_def data_at_def example_defs)
  have b2: "nextPage ?pg = - 1" by simp
  have b3: "\<forall>i>slotNo (curRec (scan_at 2 \<lparr>pageNo = 2, slotNo = 0\<rparr>)). \<not> live ?pg i"
    by (simp add: live_def scan_at_def)
  from scanNext_NORECORDS_FILEEOF
    [of "scan_at 2 NULLRID\<lparr>curPage := None\<rparr>" "pinned file0 1" 1 ?hdr NULLRID
        "scan_at 2 \<lparr>pageNo = 2, slotNo = 0\<rparr>" "pinned file1 2" 2 ?pg NULLRID]
    a1 a2 a3 b1 b2 b3
  show ?thesis by blast
qed

text \<open>
  C8. The claim: whenever \<open>offset + length > record.length\<close>, \<^verbatim>\<open>matchRec\<close> returns
  false and reads nothing out of bounds. The code tests
  \<^verbatim>\<open>(offset + length - 1) >= rec.length\<close> in \<^verbatim>\<open>int\<close>: for the offset 2147483647 and
  the length 2, which \<^verbatim>\<open>startScan\<close> accepts, the sum wraps to a negative number, the
  test fails and \<^verbatim>\<open>strncmp\<close> reads beyond the five bytes of the record.
\<close>

theorem matchRec_offset_wraps:
  "fst (startScan 0x7FFFFFFF 2 STRING (Some [97, 98]) EQ fresh_HeapFileScan) = OK \<and>
   matchRec (snd (startScan 0x7FFFFFFF 2 STRING (Some [97, 98]) EQ fresh_HeapFileScan))
     \<lparr>data = [104, 101, 108, 108, 111], length_r = 5\<rparr> = None"
  by (simp add: startScan_def fresh_HeapFileScan_def matchRec_def attr_diff_def
      numeral_2_eq_2)

text \<open>
  C9. The claim: for an integer attribute \<^verbatim>\<open>matchRec\<close> applies the operator to the exact
  difference of attribute and filter value, for all values. The code subtracts in
  \<^verbatim>\<open>int\<close>: for the attribute -2147483648 and the filter value 1 the difference wraps
  to 2147483647, and \<open>LT\<close> does not hold although the attribute is less than the value.
\<close>

theorem matchRec_int_difference_wraps:
  "fst (startScan 0 4 INTEGER (Some [1, 0, 0, 0]) LT fresh_HeapFileScan) = OK \<and>
   matchRec (snd (startScan 0 4 INTEGER (Some [1, 0, 0, 0]) LT fresh_HeapFileScan))
     \<lparr>data = [0, 0, 0, 0x80], length_r = 4\<rparr> = Some False \<and>
   sint (le32 [0, 0, 0, 0x80]) - sint (le32 [1, 0, 0, 0]) < 0"
  by (simp add: startScan_def fresh_HeapFileScan_def matchRec_def attr_diff_def
      read_bytes_def le32_def diff_of_int_def)

text \<open>
  C10. \<^verbatim>\<open>HeapFileScan::deleteRecord\<close>, called with a current page and a header page,
  returns the status of the page's \<^verbatim>\<open>deleteRecord\<close> as it is, sets
  \<^verbatim>\<open>curDirtyFlag\<close> and \<^verbatim>\<open>hdrDirtyFlag\<close> and decrements \<^verbatim>\<open>recCnt\<close> of the header,
  whatever the status: when the slot of \<^verbatim>\<open>curRec\<close> holds no record, the status is
  \<open>INVALIDSLOT\<close>, the page is as it was and the count is decremented all the same.
\<close>

theorem deleteRecord_always_decrements:
  assumes "curPage this = Some p" and "data_at w p = Some pg"
    and "headerPage this = Some hp" and "hdr_at w hp = Some hdr"
  shows "\<exists>this1 w1.
           deleteRecord this w = Some (fst (page_deleteRecord pg (curRec this)), this1, w1) \<and>
           curDirtyFlag this1 \<and> hdrDirtyFlag this1 \<and>
           hdr_at w1 hp = Some (hdr\<lparr>recCnt := recCnt hdr - 1\<rparr>) \<and>
           (\<not> live pg (slotNo (curRec this)) \<longrightarrow>
              fst (page_deleteRecord pg (curRec this)) = INVALIDSLOT \<and> data_at w1 p = Some pg)"
proof -
  have ne: "hp \<noteq> p" using assms(2,4) by (rule data_hdr_distinct)
  define this1 where "this1 = this\<lparr>curDirtyFlag := True, hdrDirtyFlag := True\<rparr>"
  define w1 where "w1 = put_hdr (put_data w p (snd (page_deleteRecord pg (curRec this)))) hp
                   (hdr\<lparr>recCnt := recCnt hdr - 1\<rparr>)"
  have 1: "deleteRecord this w = Some (fst (page_deleteRecord pg (curRec this)), this1, w1)"
    unfolding this1_def w1_def using assms by (rule deleteRecord_eq)
  have 2: "curDirtyFlag this1" "hdrDirtyFlag this1" by (simp_all add: this1_def)
  have 3: "hdr_at w1 hp = Some (hdr\<lparr>recCnt := recCnt hdr - 1\<rparr>)"
    by (simp add: w1_def hdr_at_def put_hdr_def)
  have 4: "fst (page_deleteRecord pg (curRec this)) = INVALIDSLOT \<and> data_at w1 p = Some pg"
    if "\<not> live pg (slotNo (curRec this))"
    using that ne by (simp add: w1_def page_deleteRecord_def data_at_def put_hdr_def put_data_def)
  from 1 2 3 4 show ?thesis by blast
qed

theorem deleteRecord_always_decrements_witness:
  "map_option recCnt (hdr_at (pinned file1 2) 1) = Some 1 \<and>
   (\<exists>this1 w1.
      deleteRecord (scan_at 2 \<lparr>pageNo = 2, slotNo = 5\<rparr>) (pinned file1 2)
        = Some (INVALIDSLOT, this1, w1) \<and>
      curDirtyFlag this1 \<and> hdrDirtyFlag this1 \<and>
      map_option recCnt (hdr_at w1 1) = Some 0 \<and>
      data_at w1 2 = data_at (pinned file1 2) 2)"
proof -
  let ?scan = "scan_at 2 \<lparr>pageNo = 2, slotNo = 5\<rparr>"
  let ?hdr = "\<lparr>fileName = ''t'', firstPage = 2, lastPage = 2, pageCnt = 1, recCnt = 1\<rparr>"
  let ?pg = "\<lparr>pageNumber = 2, nextPage = - 1, slots = [Some (mk_rec 600 1)]\<rparr>"
  have h1: "curPage ?scan = Some 2" by (simp add: scan_at_def)
  have h2: "data_at (pinned file1 2) 2 = Some ?pg" by (simp add: data_at_def example_defs)
  have h3: "headerPage ?scan = Some 1" by (simp add: scan_at_def)
  have h4: "hdr_at (pinned file1 2) 1 = Some ?hdr" by (simp add: hdr_at_def example_defs)
  have n: "\<not> live ?pg (slotNo (curRec ?scan))" by (simp add: live_def scan_at_def)
  from deleteRecord_always_decrements [OF h1 h2 h3 h4] n h2 h4
  show ?thesis by auto
qed

end
